theory Spec2Isabelle
  imports Complex_Main "HOL-Library.Word" "HOL-Library.Multiset"
begin

section \<open>Blink-1470: spectrogram preprocessing and activation interpretation\<close>

text \<open>
  A shallow embedding of \<^verbatim>\<open>src/scripts/preprocess.py\<close>.

  Conventions of the embedding:
  \<^item> a numpy array or a TensorFlow tensor is a nested list, outermost axis first;
    a 2-D array is \<open>'a list list\<close> (a list of rows), a 4-D tensor in NHWC layout is
    \<open>real list list list list\<close>;
  \<^item> a finite floating-point value is a \<open>real\<close> and arithmetic on finite values is
    exact: rounding is not modelled. The special values that a division by zero
    produces are modelled (type \<open>npfloat\<close> below);
  \<^item> a Python exception is a value \<open>Inl e\<close> of the result type \<open>error + 'a\<close>;
  \<^item> writing image and audio files (\<^verbatim>\<open>io.imsave\<close>, \<^verbatim>\<open>write\<close>) and the audio
    inversion \<^verbatim>\<open>mel_to_audio\<close> are outside the embedding: the functions are modelled
    with \<^verbatim>\<open>png_name = None\<close> and \<^verbatim>\<open>wav_name = None\<close>, and \<^verbatim>\<open>spectrogram_img\<close> by
    the image it returns.
\<close>

datatype error =
  ValueError          \<comment> \<open>numpy: reduction of an empty array, reshape to a wrong size\<close>
  | IndexError        \<comment> \<open>index out of bounds\<close>
  | InvalidArgument   \<comment> \<open>TensorFlow: incompatible shapes\<close>
  | UnboundLocalError \<comment> \<open>a local variable read before it was assigned\<close>
  | ShapeNotModelled  \<comment> \<open>an input outside the documented shape\<close>

subsection \<open>Tiling a spectrogram: \<^verbatim>\<open>make_square\<close>\<close>

text \<open>\<^verbatim>\<open>s[:, a:b]\<close> on a 2-D array: the columns from \<open>a\<close> up to \<open>b\<close> of every row; as in
  Python, a slice that reaches beyond the row is cut short.\<close>

definition col_slice :: "nat \<Rightarrow> nat \<Rightarrow> 'a list list \<Rightarrow> 'a list list" where
  "col_slice a b s = map (\<lambda>row. take (b - a) (drop a row)) s"

text \<open>\<^verbatim>\<open>genre.extend([...])\<close> mutates the list \<open>genre\<close>; the model returns the new list.\<close>

definition make_square :: "real list list list \<Rightarrow> real list list \<Rightarrow> real list list list" where
  "make_square genre s = genre @
     [col_slice 0 128 s,
      col_slice 128 (2 * 128) s,
      col_slice (2 * 128) (3 * 128) s,
      col_slice (3 * 128) (4 * 128) s,
      col_slice (4 * 128) (5 * 128) s,
      col_slice (5 * 128) (6 * 128) s,
      col_slice (6 * 128) (7 * 128) s,
      col_slice (7 * 128) (8 * 128) s,
      col_slice (8 * 128) (9 * 128) s,
      col_slice (9 * 128) (10 * 128) s]"

subsection \<open>Shuffling inputs and labels together: \<^verbatim>\<open>shuffle_data\<close>\<close>

definition np_arange :: "nat \<Rightarrow> nat list" where
  "np_arange n = [0..<n]"

text \<open>
  \<^verbatim>\<open>np.random.shuffle\<close> reorders its argument in place according to the state of the
  random number generator. The generator is the parameter \<open>rng\<close>: the function that
  sends the array to its shuffled order. \<^verbatim>\<open>inputs[indices, :, :]\<close> raises IndexError
  when an index is not below the leading dimension of \<open>inputs\<close>; \<open>labels\<close> is the 1-D
  array of labels, one per row.
\<close>

definition shuffle_data ::
  "(nat list \<Rightarrow> nat list) \<Rightarrow> real list list list \<Rightarrow> int list
     \<Rightarrow> error + (real list list list \<times> int list)" where
  "shuffle_data rng inputs labels =
     (let indices = rng (np_arange (length labels)) in
      if \<exists>i \<in> set indices. length inputs \<le> i then Inl IndexError
      else if \<exists>i \<in> set indices. length labels \<le> i then Inl IndexError
      else Inr (map (\<lambda>i. inputs ! i) indices, map (\<lambda>i. labels ! i) indices))"

subsection \<open>Floating-point values and min-max scaling\<close>

text \<open>
  The result of a floating-point division: a finite value, an infinity or NaN. IEEE 754
  division by zero gives NaN for \<open>0 / 0\<close> and a signed infinity otherwise; numpy
  reports it as a warning, not as an exception.
\<close>

datatype npfloat = Fin real | PInf | NInf | NaN

definition np_divide :: "real \<Rightarrow> real \<Rightarrow> npfloat" where
  "np_divide x y =
     (if y \<noteq> 0 then Fin (x / y)
      else if x = 0 then NaN
      else if 0 < x then PInf else NInf)"

fun np_times :: "npfloat \<Rightarrow> real \<Rightarrow> npfloat" where
  "np_times (Fin x) y = Fin (x * y)"
| "np_times PInf y = (if y = 0 then NaN else if 0 < y then PInf else NInf)"
| "np_times NInf y = (if y = 0 then NaN else if 0 < y then NInf else PInf)"
| "np_times NaN y = NaN"

text \<open>\<^verbatim>\<open>S.min()\<close> and \<^verbatim>\<open>S.max()\<close> over all entries of a 2-D array.\<close>

definition arr_min :: "real list list \<Rightarrow> real" where
  "arr_min S = Min (set (concat S))"

definition arr_max :: "real list list \<Rightarrow> real" where
  "arr_max S = Max (set (concat S))"

text \<open>The reductions raise ValueError on an array without entries.\<close>

definition minmax_scaling :: "real list list \<Rightarrow> real \<Rightarrow> error + npfloat list list" where
  "minmax_scaling S factor =
     (if concat S = [] then Inl ValueError
      else
        let s_min = arr_min S;
            s_max = arr_max S;
            S_std = map (map (\<lambda>x. np_divide (x - s_min) (s_max - s_min))) S
        in Inr (map (map (\<lambda>v. np_times v factor)) S_std))"

text \<open>An array is non-constant when two of its entries differ.\<close>

definition non_constant :: "real list list \<Rightarrow> bool" where
  "non_constant S \<longleftrightarrow> (\<exists>x \<in> set (concat S). \<exists>y \<in> set (concat S). x \<noteq> y)"

subsection \<open>The spectrogram-image codec: \<^verbatim>\<open>spectrogram_img\<close> and \<^verbatim>\<open>revert_to_spectro\<close>\<close>

text \<open>
  \<^verbatim>\<open>.astype(np.uint8)\<close> raises nothing: it truncates a finite value towards zero and
  keeps the low 8 bits. C leaves the conversion of a value that does not fit undefined
  and numpy only warns; the model gives the result of the conversion on x86-64, where
  a value that fits into 32 bits wraps around modulo 256 and any other value, an
  infinity and NaN become 0.
\<close>

definition astype_uint8 :: "npfloat \<Rightarrow> 8 word" where
  "astype_uint8 v =
     (case v of
        Fin x \<Rightarrow> if \<bar>x\<bar> < 2 ^ 31 then word_of_int (if 0 \<le> x then \<lfloor>x\<rfloor> else \<lceil>x\<rceil>) else 0
      | _ \<Rightarrow> 0)"

definition astype_uint8_arr :: "npfloat list list \<Rightarrow> 8 word list list" where
  "astype_uint8_arr A = map (map astype_uint8) A"

text \<open>\<^verbatim>\<open>np.flip(A, axis=0)\<close> reverses the order of the rows.\<close>

definition np_flip0 :: "'a list \<Rightarrow> 'a list" where
  "np_flip0 A = rev A"

text \<open>
  \<^verbatim>\<open>255 - pixels\<close> is computed in \<^verbatim>\<open>uint8\<close>, here on 8-bit words. The image is the
  value returned; saving it under \<open>name\<close> is not modelled.
\<close>

definition spectrogram_img :: "real list list \<Rightarrow> error + 8 word list list" where
  "spectrogram_img S =
     (case minmax_scaling S 255 of
        Inl e \<Rightarrow> Inl e
      | Inr scaled \<Rightarrow> Inr (map (map (\<lambda>p. 255 - p)) (np_flip0 (astype_uint8_arr scaled))))"


text \<open>The 8-bit pixel of \<open>x\<close> before the inversion \<open>255 - p\<close>, used in the proofs.\<close>

definition quantise :: "real list list \<Rightarrow> real \<Rightarrow> nat" where
  "quantise S x = nat \<lfloor>(x - arr_min S) / (arr_max S - arr_min S) * 255\<rfloor>"

subsection \<open>Tensors and the TensorFlow operations\<close>

text \<open>
  A 4-D tensor: batch, height, width, channels for an activation; kernel height, kernel
  width, input channels, output channels for a convolution kernel. The lists of a tensor
  are rectangular; \<open>is_tensor4\<close> says so and gives the shape.
\<close>

type_synonym tensor4 = "real list list list list"

definition is_tensor4 :: "nat \<Rightarrow> nat \<Rightarrow> nat \<Rightarrow> nat \<Rightarrow> 'a list list list list \<Rightarrow> bool" where
  "is_tensor4 d0 d1 d2 d3 t \<longleftrightarrow>
     length t = d0 \<and>
     (\<forall>a \<in> set t. length a = d1 \<and>
        (\<forall>b \<in> set a. length b = d2 \<and>
           (\<forall>c \<in> set b. length c = d3)))"

text \<open>The length of the first element: the size of the second axis of a rectangular array.\<close>

definition hd_len :: "'a list list \<Rightarrow> nat" where
  "hd_len xs = (case xs of [] \<Rightarrow> 0 | x # _ \<Rightarrow> length x)"

definition channels :: "'a list list list list \<Rightarrow> nat" where
  "channels t = hd_len (concat (concat t))"

text \<open>
  \<^verbatim>\<open>tf.nn.conv2d(x, k, strides=(1,1), padding="SAME")\<close>: the input is read as zero
  outside its borders, \<open>(kh - 1) div 2\<close> rows above and \<open>(kw - 1) div 2\<close> columns to
  the left, and each output entry is the sum of input times kernel over the kernel
  window and the kernel's input channels. When the input has \<open>g\<close> times as many
  channels as the kernel reads, TensorFlow runs a grouped convolution: the output
  channels fall into \<open>g\<close> consecutive blocks and block \<open>b\<close> reads the input channels
  from \<open>b * cin\<close> on; \<open>g = 1\<close> is the ordinary convolution. The call fails when the
  input's channel count is not a multiple of the kernel's input-channel count, or the
  output-channel count not a multiple of the number of groups.
\<close>

definition pad_at :: "real list list list \<Rightarrow> int \<Rightarrow> int \<Rightarrow> nat \<Rightarrow> real" where
  "pad_at img i j q =
     (if 0 \<le> i \<and> i < int (length img) \<and> 0 \<le> j \<and> j < int (length (img ! nat i))
      then img ! nat i ! nat j ! q else 0)"

definition conv2d_same :: "tensor4 \<Rightarrow> tensor4 \<Rightarrow> error + tensor4" where
  "conv2d_same x k =
     (let kh = length k; kw = hd_len k; cin = hd_len (concat k); cout = channels k;
          pad_top = (kh - 1) div 2; pad_left = (kw - 1) div 2;
          groups = channels x div cin
      in if cin = 0 \<or> channels x mod cin \<noteq> 0 \<or> cout mod groups \<noteq> 0 then Inl InvalidArgument
         else Inr (map (\<lambda>img.
                map (\<lambda>i.
                  map (\<lambda>j.
                    map (\<lambda>oc.
                      (\<Sum>di\<leftarrow>[0..<kh]. \<Sum>dj\<leftarrow>[0..<kw]. \<Sum>q\<leftarrow>[0..<cin].
                         pad_at img (int i + int di - int pad_top) (int j + int dj - int pad_left)
                             (oc div (cout div groups) * cin + q)
                           * k ! di ! dj ! q ! oc))
                    [0..<cout])
                  [0..<hd_len img])
                [0..<length img]) x))"

text \<open>\<^verbatim>\<open>tf.nn.bias_add\<close> adds one bias per channel and fails on a different count.\<close>

definition bias_add :: "tensor4 \<Rightarrow> real list \<Rightarrow> error + tensor4" where
  "bias_add x bias =
     (if channels x \<noteq> length bias then Inl InvalidArgument
      else Inr (map (map (map (\<lambda>px. map (\<lambda>(v, b). v + b) (zip px bias)))) x))"

definition relu :: "tensor4 \<Rightarrow> tensor4" where
  "relu x = map (map (map (map (max 0)))) x"

text \<open>
  \<^verbatim>\<open>MaxPool2D((2,2), strides=2)\<close>: the maximum of every 2x2 window that fits, so height
  and width are halved, rounding down.
\<close>

definition max_pool_2x2 :: "tensor4 \<Rightarrow> tensor4" where
  "max_pool_2x2 x =
     map (\<lambda>img.
       map (\<lambda>i.
         map (\<lambda>j.
           map (\<lambda>q. max (max (img ! (2 * i) ! (2 * j) ! q) (img ! (2 * i) ! (2 * j + 1) ! q))
                         (max (img ! (2 * i + 1) ! (2 * j) ! q) (img ! (2 * i + 1) ! (2 * j + 1) ! q)))
           [0..<hd_len (concat img)])
         [0..<hd_len img div 2])
       [0..<length img div 2]) x"

text \<open>\<^verbatim>\<open>UpSampling2D(size=(2, 2))\<close> repeats every row and every column twice.\<close>

definition up_sampling_2x2 :: "tensor4 \<Rightarrow> tensor4" where
  "up_sampling_2x2 x =
     map (\<lambda>img.
       map (\<lambda>i. map (\<lambda>j. img ! (i div 2) ! (j div 2)) [0..<2 * hd_len img])
       [0..<2 * length img]) x"

text \<open>\<^verbatim>\<open>filter_weight[::-1, ::-1, :, :]\<close> reverses both spatial axes of a kernel.\<close>

definition flip_kernel :: "tensor4 \<Rightarrow> tensor4" where
  "flip_kernel k = rev (map rev k)"

text \<open>\<^verbatim>\<open>tf.transpose(filter_weight, perm = [0,1,3,2])\<close> swaps the two channel axes.\<close>

definition transpose_channels :: "tensor4 \<Rightarrow> tensor4" where
  "transpose_channels k =
     map (map (\<lambda>m. map (\<lambda>oc. map (\<lambda>q. m ! q ! oc) [0..<length m]) [0..<hd_len m])) k"

subsection \<open>numpy arrays of any rank and \<^verbatim>\<open>np.squeeze\<close>\<close>

text \<open>
  \<^verbatim>\<open>np.squeeze\<close> removes every axis of length one, so the rank of its result depends
  on the shape of its argument: the result is an array of any rank.
\<close>

datatype 'a ndarray = Scalar 'a | Arr "'a ndarray list"

definition to_ndarray :: "'a list list list list \<Rightarrow> 'a ndarray" where
  "to_ndarray t = Arr (map (\<lambda>a. Arr (map (\<lambda>b. Arr (map (\<lambda>c. Arr (map Scalar c)) b)) a)) t)"

fun np_squeeze :: "'a ndarray \<Rightarrow> 'a ndarray" where
  "np_squeeze (Scalar v) = Scalar v"
| "np_squeeze (Arr [a]) = np_squeeze a"
| "np_squeeze (Arr as) = Arr (map np_squeeze as)"

definition nd_matrix :: "'a list list \<Rightarrow> 'a ndarray" where
  "nd_matrix M = Arr (map (\<lambda>row. Arr (map Scalar row)) M)"

subsection \<open>Deconvolution of the second layer: \<^verbatim>\<open>deconvolve_and_interpret\<close>\<close>

text \<open>
  The loop \<^verbatim>\<open>for filter_weight, filter_bias in weights\<close>. Its state is \<open>conv\<close> and the
  loop variable \<open>filter_weight\<close>, which the code reads again after the loop: it is
  \<open>None\<close> as long as no iteration has bound it.
\<close>

fun forward_pass ::
  "tensor4 \<times> tensor4 option \<Rightarrow> (tensor4 \<times> real list) list \<Rightarrow> error + (tensor4 \<times> tensor4 option)" where
  "forward_pass (conv, last_weight) [] = Inr (conv, last_weight)"
| "forward_pass (conv, last_weight) ((filter_weight, filter_bias) # rest) =
     (case conv2d_same conv filter_weight of
        Inl e \<Rightarrow> Inl e
      | Inr c1 \<Rightarrow>
          (case bias_add c1 filter_bias of
             Inl e \<Rightarrow> Inl e
           | Inr c2 \<Rightarrow> forward_pass (max_pool_2x2 (relu c2), Some filter_weight) rest))"

text \<open>
  After the loop the code upsamples and convolves twice: with the kernel left in
  \<open>filter_weight\<close> by the loop, then with \<^verbatim>\<open>weights[0][0]\<close>. Reading \<open>filter_weight\<close>
  after a loop over an empty list raises UnboundLocalError.
\<close>

definition deconvolve_and_interpret ::
  "tensor4 \<Rightarrow> (tensor4 \<times> real list) list \<Rightarrow> error + real ndarray" where
  "deconvolve_and_interpret S weights =
     (case forward_pass (S, None) weights of
        Inl e \<Rightarrow> Inl e
      | Inr (conv, last_weight) \<Rightarrow>
          let upsampled_1 = up_sampling_2x2 conv in
          (case last_weight of
             None \<Rightarrow> Inl UnboundLocalError
           | Some filter_weight \<Rightarrow>
               let filter_weight = flip_kernel filter_weight;
                   filter_weight = transpose_channels filter_weight
               in (case conv2d_same upsampled_1 filter_weight of
                     Inl e \<Rightarrow> Inl e
                   | Inr deconv_1 \<Rightarrow>
                       let upsampled_2 = up_sampling_2x2 deconv_1 in
                       (case weights of
                          [] \<Rightarrow> Inl IndexError
                        | (filter_weight, _) # _ \<Rightarrow>
                            let filter_weight = flip_kernel filter_weight;
                                filter_weight = transpose_channels filter_weight
                            in (case conv2d_same upsampled_2 filter_weight of
                                  Inl e \<Rightarrow> Inl e
                                | Inr deconv_2 \<Rightarrow> Inr (np_squeeze (to_ndarray deconv_2)))))))"

text \<open>
  The specification's inverse pass, from its words: one step (2x upsample, kernel flip
  and channel transpose, stride-1 same-padding convolution) per forward stage, over the
  stage kernels in reverse order.
\<close>

definition inverse_step :: "tensor4 \<Rightarrow> tensor4 \<Rightarrow> error + tensor4" where
  "inverse_step x filter_weight =
     conv2d_same (up_sampling_2x2 x) (transpose_channels (flip_kernel filter_weight))"

fun inverse_pass :: "tensor4 \<Rightarrow> tensor4 list \<Rightarrow> error + tensor4" where
  "inverse_pass x [] = Inr x"
| "inverse_pass x (w # ws) =
     (case inverse_step x w of Inl e \<Rightarrow> Inl e | Inr y \<Rightarrow> inverse_pass y ws)"

definition spec_deconvolve_and_interpret ::
  "tensor4 \<Rightarrow> (tensor4 \<times> real list) list \<Rightarrow> error + real ndarray" where
  "spec_deconvolve_and_interpret S weights =
     (case forward_pass (S, None) weights of
        Inl e \<Rightarrow> Inl e
      | Inr (conv, _) \<Rightarrow>
          (case inverse_pass conv (rev (map fst weights)) of
             Inl e \<Rightarrow> Inl e
           | Inr deconv \<Rightarrow> Inr (np_squeeze (to_ndarray deconv))))"

text \<open>The 2-D array that \<^verbatim>\<open>np.squeeze\<close> makes of a tensor of shape \<open>(1, h, w, 1)\<close>.\<close>

definition squeezed_tile :: "'a list list list list \<Rightarrow> 'a list list" where
  "squeezed_tile t = map (map (\<lambda>px. px ! 0)) (t ! 0)"

subsection \<open>Masking a spectrogram by a filter's activation: \<^verbatim>\<open>interpret_activation\<close>\<close>

text \<open>
  \<^verbatim>\<open>conv[:, :, :, filter_index]\<close> selects one channel. As in Python, a negative index counts
  from the last channel, and an index outside the channel range raises IndexError.
\<close>

definition py_index :: "nat \<Rightarrow> int \<Rightarrow> error + nat" where
  "py_index n idx =
     (if 0 \<le> idx \<and> idx < int n then Inr (nat idx)
      else if - int n \<le> idx \<and> idx < 0 then Inr (nat (int n + idx))
      else Inl IndexError)"

definition channel_slice :: "tensor4 \<Rightarrow> int \<Rightarrow> error + real list list list" where
  "channel_slice conv idx =
     (case py_index (channels conv) idx of
        Inl e \<Rightarrow> Inl e
      | Inr q \<Rightarrow> Inr (map (map (map (\<lambda>px. px ! q))) conv))"

text \<open>
  \<^verbatim>\<open>np.reshape(a, (r, c))\<close> lays the entries of \<open>a\<close> out in \<open>r\<close> rows of \<open>c\<close> columns, in
  row-major order, and raises ValueError when \<open>a\<close> does not have \<open>r * c\<close> entries.
\<close>

definition np_reshape_2d :: "nat \<Rightarrow> nat \<Rightarrow> real list list list \<Rightarrow> error + real list list" where
  "np_reshape_2d r c a =
     (let flat = concat (concat a)
      in if length flat \<noteq> r * c then Inl ValueError
         else Inr (map (\<lambda>i. take c (drop (i * c) flat)) [0..<r]))"

text \<open>Reading an array of rank two as a list of rows.\<close>

fun the_scalar :: "'a ndarray \<Rightarrow> 'a option" where
  "the_scalar (Scalar v) = Some v"
| "the_scalar (Arr as) = None"

fun the_row :: "'a ndarray \<Rightarrow> 'a list option" where
  "the_row (Scalar v) = None"
| "the_row (Arr as) = those (map the_scalar as)"

fun the_matrix :: "'a ndarray \<Rightarrow> 'a list list option" where
  "the_matrix (Scalar v) = None"
| "the_matrix (Arr as) = those (map the_row as)"

text \<open>
  \<^verbatim>\<open>np.multiply(S, activation_mask)\<close>, where \<open>S\<close> is the squeezed input and the mask is a
  2-D array. A squeezed 2-D array has no axis of length one, so numpy multiplies
  element-wise when the shapes are equal and raises ValueError when they differ.
  Broadcasting a squeezed input of another rank is not modelled (\<open>ShapeNotModelled\<close>):
  the documented input has shape \<open>(1, 128, 128, 1)\<close> and squeezes to rank two.
\<close>

definition np_multiply :: "real ndarray \<Rightarrow> npfloat list list \<Rightarrow> error + npfloat list list" where
  "np_multiply S activation_mask =
     (case the_matrix S of
        None \<Rightarrow> Inl ShapeNotModelled
      | Some M \<Rightarrow>
          if map length M = map length activation_mask
          then Inr (map (\<lambda>(srow, mrow). map (\<lambda>(s, m). np_times m s) (zip srow mrow)) (zip M activation_mask))
          else Inl ValueError)"

text \<open>The activation of the layer: convolution, bias, ReLU.\<close>

definition conv_activation :: "tensor4 \<Rightarrow> tensor4 \<times> real list \<Rightarrow> error + tensor4" where
  "conv_activation S weights =
     (case weights of (filter_weight, bias) \<Rightarrow>
        (case conv2d_same S filter_weight of
           Inl e \<Rightarrow> Inl e
         | Inr conv \<Rightarrow>
             (case bias_add conv bias of
                Inl e \<Rightarrow> Inl e
              | Inr conv \<Rightarrow> Inr (relu conv))))"

text \<open>\<^verbatim>\<open>np.reshape(conv[:, :, :, filter_index], (128, 128))\<close>\<close>

definition filter_activations :: "tensor4 \<Rightarrow> int \<Rightarrow> error + real list list" where
  "filter_activations conv filter_index =
     (case channel_slice conv filter_index of
        Inl e \<Rightarrow> Inl e
      | Inr sl \<Rightarrow> np_reshape_2d 128 128 sl)"

text \<open>
  The three lines that both branches of the code repeat: the activation map of one
  filter, its min-max scaling to a mask, and the product with the spectrogram.
\<close>

definition mask_spectrogram :: "real ndarray \<Rightarrow> tensor4 \<Rightarrow> int \<Rightarrow> error + npfloat list list" where
  "mask_spectrogram S conv filter_index =
     (case filter_activations conv filter_index of
        Inl e \<Rightarrow> Inl e
      | Inr acts \<Rightarrow>
          (case minmax_scaling acts 1 of
             Inl e \<Rightarrow> Inl e
           | Inr activation_mask \<Rightarrow> np_multiply S activation_mask))"

text \<open>
  The loop of the branch without \<open>filter_index\<close>:
  \<^verbatim>\<open>masked = []; for i in range(tf.shape(conv)[-1]): ... masked_s = np.multiply(...)\<close>.
  Each iteration computes \<open>masked_s\<close>; the code never adds it to \<open>masked\<close>.
\<close>

fun all_filters_loop ::
  "real ndarray \<Rightarrow> tensor4 \<Rightarrow> nat list \<Rightarrow> npfloat list list list \<Rightarrow> error + npfloat list list list" where
  "all_filters_loop S conv [] masked = Inr masked"
| "all_filters_loop S conv (i # rest) masked =
     (case mask_spectrogram S conv (int i) of
        Inl e \<Rightarrow> Inl e
      | Inr masked_s \<Rightarrow> all_filters_loop S conv rest masked)"

text \<open>The function returns one masked spectrogram or a list of them.\<close>

datatype masked_result = Masked "npfloat list list" | MaskedList "npfloat list list list"

definition interpret_activation ::
  "tensor4 \<Rightarrow> tensor4 \<times> real list \<Rightarrow> int option \<Rightarrow> error + masked_result" where
  "interpret_activation S weights filter_index =
     (case conv_activation S weights of
        Inl e \<Rightarrow> Inl e
      | Inr conv \<Rightarrow>
          let S = np_squeeze (to_ndarray S) in
          (case filter_index of
             Some idx \<Rightarrow>
               (case mask_spectrogram S conv idx of
                  Inl e \<Rightarrow> Inl e
                | Inr masked \<Rightarrow> Inr (Masked masked))
           | None \<Rightarrow>
               (case all_filters_loop S conv [0..<channels conv] [] of
                  Inl e \<Rightarrow> Inl e
                | Inr masked \<Rightarrow> Inr (MaskedList masked))))"

text \<open>The activation map that \<^verbatim>\<open>interpret_activation\<close> scales for a given filter index.\<close>

definition selected_activation_map :: "tensor4 \<Rightarrow> tensor4 \<times> real list \<Rightarrow> int \<Rightarrow> error + real list list" where
  "selected_activation_map S weights filter_index =
     (case conv_activation S weights of
        Inl e \<Rightarrow> Inl e
      | Inr conv \<Rightarrow> filter_activations conv filter_index)"

subsection \<open>Notions used in the statements\<close>

text \<open>The element-wise product that \<open>np_multiply\<close> returns.\<close>

definition masked_product :: "real list list \<Rightarrow> npfloat list list \<Rightarrow> npfloat list list" where
  "masked_product T m = map (\<lambda>(srow, mrow). map (\<lambda>(s, m). np_times m s) (zip srow mrow)) (zip T m)"

text \<open>The map of channel \<open>q\<close> of a tensor that holds one image.\<close>

definition channel_map :: "tensor4 \<Rightarrow> nat \<Rightarrow> real list list" where
  "channel_map conv q = map (map (\<lambda>px. px ! q)) (conv ! 0)"

text \<open>
  The scenario of the specification: a 128x128 spectrogram of 5.0 everywhere, a 3x3
  kernel of ones with 32 output channels, and a zero bias.
\<close>

definition uniform_tile :: tensor4 where
  "uniform_tile = [replicate 128 (replicate 128 [5])]"

definition ones_kernel :: tensor4 where
  "ones_kernel = replicate 3 (replicate 3 [replicate 32 1])"

definition zero_bias :: "real list" where
  "zero_bias = replicate 32 0"

text \<open>
  The number of rows (or columns) of the 3x3 window centred at \<open>i\<close> that lie inside
  the 128x128 tile, and whether a coordinate lies inside it.
\<close>

definition window_count :: "nat \<Rightarrow> real" where
  "window_count i = (if i = 0 \<or> i = 127 then 2 else 3)"

definition inside :: "int \<Rightarrow> real" where
  "inside a = (if 0 \<le> a \<and> a < 128 then 1 else 0)"

section \<open>Properties\<close>

subsection \<open>Tiling\<close>

lemma make_square_tiles:
  "make_square genre s = genre @ map (\<lambda>k. col_slice (128 * k) (128 * (k + 1)) s) [0..<10]"
  by (simp add: make_square_def upt_rec)

lemma col_slice_nth:
  assumes "r < length s" and "b \<le> length (s ! r)" and "a + c < b"
  shows "col_slice a b s ! r ! c = s ! r ! (a + c)"
  using assms by (simp add: col_slice_def)

lemma concat_col_slices:
  assumes "n * w \<le> length row"
  shows "concat (map (\<lambda>k. take (w * (k + 1) - w * k) (drop (w * k) row)) [0..<n]) = take (n * w) row"
  using assms
proof (induction n)
  case 0
  then show ?case by simp
next
  case (Suc n)
  have step: "take (n * w) row @ take w (drop (w * n) row) = take (n * w + w) row"
    by (simp add: take_add mult.commute)
  from Suc have "n * w \<le> length row" by simp
  with Suc.IH step show ?case by (simp add: add.commute)
qed

text \<open>
  Claim C9. For a spectrogram with 128 rows and at least 1280 time frames,
  \<^verbatim>\<open>make_square\<close> appends exactly 10 tiles to \<open>genre\<close>. Tile \<open>k\<close> has 128 rows of 128
  columns and holds the columns \<open>128 * k\<close> up to \<open>128 * (k + 1)\<close> of the spectrogram;
  laid side by side, the ten tiles are the first 1280 frames of every row, so they
  neither overlap nor leave a gap.
\<close>

theorem make_square_partition:
  assumes rows: "length s = 128"
    and frames: "\<forall>row \<in> set s. length row = w"
    and wide: "1280 \<le> w"
  shows "take (length genre) (make_square genre s) = genre
    \<and> length (make_square genre s) = length genre + 10
    \<and> (\<forall>k<10. length (make_square genre s ! (length genre + k)) = 128
          \<and> (\<forall>r<128. length (make_square genre s ! (length genre + k) ! r) = 128
                \<and> (\<forall>c<128. make_square genre s ! (length genre + k) ! r ! c
                               = s ! r ! (128 * k + c))))
    \<and> (\<forall>r<128. concat (map (\<lambda>k. make_square genre s ! (length genre + k) ! r) [0..<10])
                  = take 1280 (s ! r))"
proof -
  let ?tiles = "map (\<lambda>k. col_slice (128 * k) (128 * (k + 1)) s) [0..<10]"
  have ms: "make_square genre s = genre @ ?tiles"
    by (rule make_square_tiles)
  have tile: "make_square genre s ! (length genre + k) = col_slice (128 * k) (128 * (k + 1)) s"
    if "k < 10" for k
    using that by (simp only: ms nth_append_length_plus) simp
  have len_row: "length (s ! r) = w" if "r < 128" for r
    using that rows frames by simp
  have c1: "take (length genre) (make_square genre s) = genre"
    by (simp add: ms)
  have c2: "length (make_square genre s) = length genre + 10"
    by (simp add: ms)
  have c3: "length (make_square genre s ! (length genre + k)) = 128
          \<and> (\<forall>r<128. length (make_square genre s ! (length genre + k) ! r) = 128
                \<and> (\<forall>c<128. make_square genre s ! (length genre + k) ! r ! c
                               = s ! r ! (128 * k + c)))" if k: "k < 10" for k
  proof (intro conjI allI impI)
    show "length (make_square genre s ! (length genre + k)) = 128"
      by (simp add: tile [OF k] col_slice_def rows)
  next
    fix r :: nat assume r: "r < 128"
    have "128 * (k + 1) \<le> w" using k wide by simp
    then show "length (make_square genre s ! (length genre + k) ! r) = 128"
      using r rows len_row [OF r] by (simp add: tile [OF k] col_slice_def)
  next
    fix r c :: nat assume r: "r < 128" and c: "c < 128"
    have "128 * (k + 1) \<le> length (s ! r)" using k wide len_row [OF r] by simp
    moreover have "128 * k + c < 128 * (k + 1)" using c by simp
    ultimately show "make_square genre s ! (length genre + k) ! r ! c = s ! r ! (128 * k + c)"
      using r rows by (simp only: tile [OF k]) (rule col_slice_nth, simp_all)
  qed
  have c4: "concat (map (\<lambda>k. make_square genre s ! (length genre + k) ! r) [0..<10])
              = take 1280 (s ! r)" if r: "r < 128" for r
  proof -
    have eq: "map (\<lambda>k. make_square genre s ! (length genre + k) ! r) [0..<10]
        = map (\<lambda>k. take (128 * (k + 1) - 128 * k) (drop (128 * k) (s ! r))) [0..<10]"
      using r rows by (intro map_cong refl) (simp add: tile col_slice_def)
    have "10 * 128 \<le> length (s ! r)"
      using wide len_row [OF r] by simp
    then have "concat (map (\<lambda>k. take (128 * (k + 1) - 128 * k) (drop (128 * k) (s ! r))) [0..<10])
        = take (10 * 128) (s ! r)"
      by (rule concat_col_slices)
    then show ?thesis
      by (simp only: eq) simp
  qed
  from c1 c2 c3 c4 show ?thesis by blast
qed

theorem make_square_partition_witness:
  "length (make_square [] (replicate 128 (map real [0..<1293]))) = 10
   \<and> make_square [] (replicate 128 (map real [0..<1293])) ! 9 ! 5 ! 127 = 1279"
proof -
  let ?s = "replicate 128 (map real [0..<1293])"
  have h1: "length ?s = 128" by simp
  have h2: "\<forall>row \<in> set ?s. length row = 1293" by simp
  have h3: "(1280::nat) \<le> 1293" by simp
  from make_square_partition [OF h1 h2 h3, of "[]"]
  have len: "length (make_square [] ?s) = 10"
    and el: "\<forall>k<10. \<forall>r<128. \<forall>c<128.
               make_square [] ?s ! k ! r ! c = ?s ! r ! (128 * k + c)"
    by simp_all
  from el have "make_square [] ?s ! 9 ! 5 ! 127 = ?s ! 5 ! (128 * 9 + 127)"
    by simp
  also have "\<dots> = 1279" by simp
  finally show ?thesis using len by simp
qed

subsection \<open>Shuffling\<close>

text \<open>
  Claim C10. When \<open>inputs\<close> and \<open>labels\<close> have the same leading dimension \<open>n\<close> and the
  generator returns a permutation of the indices \<open>0..<n\<close>, \<^verbatim>\<open>shuffle_data\<close>
  returns both arrays reordered by that one permutation: at every output position
  the input row is still paired with its original label, and the outputs are
  permutations of the originals (nothing lost, duplicated or changed).
\<close>

theorem shuffle_data_same_permutation:
  assumes n: "length inputs = length labels"
    and perm: "mset (rng (np_arange (length labels))) = mset (np_arange (length labels))"
  shows "\<exists>shuffled_in shuffled_labels.
      shuffle_data rng inputs labels = Inr (shuffled_in, shuffled_labels)
    \<and> shuffled_in = map (\<lambda>i. inputs ! i) (rng (np_arange (length labels)))
    \<and> shuffled_labels = map (\<lambda>i. labels ! i) (rng (np_arange (length labels)))
    \<and> length shuffled_in = length labels \<and> length shuffled_labels = length labels
    \<and> (\<forall>k < length labels. \<exists>i < length labels.
          shuffled_in ! k = inputs ! i \<and> shuffled_labels ! k = labels ! i)
    \<and> mset (zip shuffled_in shuffled_labels) = mset (zip inputs labels)
    \<and> mset shuffled_in = mset inputs
    \<and> mset shuffled_labels = mset labels"
proof -
  let ?n = "length labels"
  let ?ix = "rng (np_arange ?n)"
  have ix: "mset ?ix = mset [0..<?n]"
    using perm by (simp only: np_arange_def)
  have set_ix: "set ?ix = {0..<?n}"
    using mset_eq_setD [OF ix] by simp
  have len_ix: "length ?ix = ?n"
    using mset_eq_length [OF ix] by simp
  have res: "shuffle_data rng inputs labels
      = Inr (map (\<lambda>i. inputs ! i) ?ix, map (\<lambda>i. labels ! i) ?ix)"
    using set_ix n by (simp add: shuffle_data_def Let_def)
  have pair: "\<exists>i < ?n. map (\<lambda>i. inputs ! i) ?ix ! k = inputs ! i
                     \<and> map (\<lambda>i. labels ! i) ?ix ! k = labels ! i" if "k < ?n" for k
  proof -
    have "?ix ! k \<in> set ?ix" using that len_ix by simp
    then have "?ix ! k < ?n" using set_ix by simp
    then show ?thesis using that len_ix by auto
  qed
  have m_in: "mset (map (\<lambda>i. inputs ! i) ?ix) = mset inputs"
  proof -
    have "mset (map (\<lambda>i. inputs ! i) ?ix) = image_mset (\<lambda>i. inputs ! i) (mset [0..<?n])"
      by (simp only: mset_map ix)
    also have "\<dots> = mset (map (\<lambda>i. inputs ! i) [0..<length inputs])"
      by (simp only: n mset_map)
    finally show ?thesis by (simp only: map_nth)
  qed
  have m_lab: "mset (map (\<lambda>i. labels ! i) ?ix) = mset labels"
  proof -
    have "mset (map (\<lambda>i. labels ! i) ?ix) = image_mset (\<lambda>i. labels ! i) (mset [0..<?n])"
      by (simp only: mset_map ix)
    also have "\<dots> = mset (map (\<lambda>i. labels ! i) [0..<length labels])"
      by (simp only: mset_map)
    finally show ?thesis by (simp only: map_nth)
  qed
  have m_zip: "mset (zip (map (\<lambda>i. inputs ! i) ?ix) (map (\<lambda>i. labels ! i) ?ix))
             = mset (zip inputs labels)"
  proof -
    have "zip (map (\<lambda>i. inputs ! i) ?ix) (map (\<lambda>i. labels ! i) ?ix)
        = map (\<lambda>i. (inputs ! i, labels ! i)) ?ix"
      by (simp add: zip_map_map zip_same_conv_map)
    then have "mset (zip (map (\<lambda>i. inputs ! i) ?ix) (map (\<lambda>i. labels ! i) ?ix))
        = image_mset (\<lambda>i. (inputs ! i, labels ! i)) (mset [0..<?n])"
      by (simp only: mset_map ix)
    also have "\<dots> = mset (map (\<lambda>i. (inputs ! i, labels ! i)) [0..<?n])"
      by (simp only: mset_map)
    also have "map (\<lambda>i. (inputs ! i, labels ! i)) [0..<?n]
        = map (\<lambda>i. zip inputs labels ! i) [0..<length (zip inputs labels)]"
      using n by (intro map_cong) simp_all
    finally show ?thesis by (simp only: map_nth)
  qed
  show ?thesis
    using res pair m_in m_lab m_zip len_ix by simp
qed

theorem shuffle_data_same_permutation_witness:
  "length [[[1]], [[2]], [[3::real]]] = length [10, 20, 30::int]
   \<and> mset (rev (np_arange (length [10, 20, 30::int]))) = mset (np_arange (length [10, 20, 30::int]))
   \<and> shuffle_data rev [[[1]], [[2]], [[3]]] [10, 20, 30] = Inr ([[[3]], [[2]], [[1]]], [30, 20, 10])"
  using shuffle_data_same_permutation [of "[[[1]], [[2]], [[3]]]" "[10, 20, 30]" rev]
  by (simp add: np_arange_def upt_rec)

subsection \<open>The spectrogram-image codec\<close>

lemma arr_min_le: "x \<in> set (concat S) \<Longrightarrow> arr_min S \<le> x"
  by (simp add: arr_min_def)

lemma arr_max_ge: "x \<in> set (concat S) \<Longrightarrow> x \<le> arr_max S"
  by (simp add: arr_max_def)

lemma non_constant_nonempty:
  assumes "non_constant S"
  shows "concat S \<noteq> []"
proof
  assume e: "concat S = []"
  from assms obtain x where "x \<in> set (concat S)"
    unfolding non_constant_def by blast
  then show False unfolding e by simp
qed

lemma non_constant_range:
  assumes "non_constant S"
  shows "arr_min S < arr_max S"
proof -
  from assms obtain x y where x: "x \<in> set (concat S)" and y: "y \<in> set (concat S)" and ne: "x \<noteq> y"
    by (auto simp: non_constant_def)
  have "arr_min S \<le> x" "arr_min S \<le> y" "x \<le> arr_max S" "y \<le> arr_max S"
    using x y by (simp_all only: arr_min_le arr_max_ge)
  with ne show ?thesis by linarith
qed

lemma scaled_bounds:
  assumes nc: "non_constant S" and x: "x \<in> set (concat S)"
  shows "0 \<le> (x - arr_min S) / (arr_max S - arr_min S) * 255"
    and "(x - arr_min S) / (arr_max S - arr_min S) * 255 \<le> 255"
proof -
  define u where "u = (x - arr_min S) / (arr_max S - arr_min S)"
  have r: "0 < arr_max S - arr_min S" using non_constant_range [OF nc] by simp
  have lo: "0 \<le> x - arr_min S" using arr_min_le [OF x] by simp
  have hi: "x - arr_min S \<le> arr_max S - arr_min S" using arr_max_ge [OF x] by simp
  have u0: "0 \<le> u" unfolding u_def using r lo by simp
  have u1: "u \<le> 1" unfolding u_def using r hi by simp
  show "0 \<le> (x - arr_min S) / (arr_max S - arr_min S) * 255"
    using u0 unfolding u_def [symmetric] by simp
  show "(x - arr_min S) / (arr_max S - arr_min S) * 255 \<le> 255"
    using u1 unfolding u_def [symmetric] by simp
qed


lemma in_concatI: "row \<in> set S \<Longrightarrow> x \<in> set row \<Longrightarrow> x \<in> set (concat S)"
  by auto

lemma minmax_scaling_non_constant:
  assumes nc: "non_constant S"
  shows "minmax_scaling S factor
       = Inr (map (map (\<lambda>x. Fin ((x - arr_min S) / (arr_max S - arr_min S) * factor))) S)"
proof -
  have r: "arr_max S - arr_min S \<noteq> 0" using non_constant_range [OF nc] by simp
  show ?thesis
    using non_constant_nonempty [OF nc] r
    by (simp add: minmax_scaling_def Let_def np_divide_def comp_def)
qed

lemma astype_scaled:
  assumes nc: "non_constant S" and x: "x \<in> set (concat S)"
  shows "astype_uint8 (Fin ((x - arr_min S) / (arr_max S - arr_min S) * 255)) = of_nat (quantise S x)"
proof -
  define t where "t = (x - arr_min S) / (arr_max S - arr_min S) * 255"
  have "0 \<le> t" "t \<le> 255"
    unfolding t_def by (rule scaled_bounds [OF nc x])+
  then have "astype_uint8 (Fin t) = of_nat (nat \<lfloor>t\<rfloor>)"
    by (simp add: astype_uint8_def)
  then show ?thesis unfolding quantise_def t_def .
qed

lemma spectrogram_img_non_constant:
  assumes nc: "non_constant S"
  shows "spectrogram_img S = Inr (map (map (\<lambda>p. 255 - p)) (rev (map (map (\<lambda>x. of_nat (quantise S x))) S)))"
proof -
  have "astype_uint8_arr (map (map (\<lambda>x. Fin ((x - arr_min S) / (arr_max S - arr_min S) * 255))) S)
      = map (map (\<lambda>x. of_nat (quantise S x))) S"
    unfolding astype_uint8_arr_def map_map comp_def
    by (intro map_cong refl) (rule astype_scaled [OF nc in_concatI])
  then show ?thesis
    by (simp add: spectrogram_img_def minmax_scaling_non_constant [OF nc] np_flip0_def)
qed


lemma nth_in_concat:
  assumes "i < length S" and "j < length (S ! i)"
  shows "S ! i ! j \<in> set (concat S)"
  using assms by (auto intro!: bexI [of _ "S ! i"])




text \<open>
  Claim C8. For a non-constant spectrogram, \<^verbatim>\<open>spectrogram_img\<close> returns an image whose
  row \<open>length S - 1 - i\<close> is computed from row \<open>i\<close> of the spectrogram (the rows are in
  reverse order), every pixel being 255 minus the truncated scaled value; an entry
  equal to the minimum becomes pixel 255 and an entry equal to the maximum becomes
  pixel 0. The witness is a spectrogram that ranges over \<open>[-10, 10]\<close>.
\<close>

theorem spectrogram_img_pixels:
  assumes nc: "non_constant S"
  shows "\<exists>img. spectrogram_img S = Inr img
      \<and> length img = length S
      \<and> (\<forall>i < length S.
            length (img ! (length S - 1 - i)) = length (S ! i)
          \<and> (\<forall>j < length (S ! i).
                img ! (length S - 1 - i) ! j
                  = 255 - of_nat (nat \<lfloor>(S ! i ! j - arr_min S) / (arr_max S - arr_min S) * 255\<rfloor>)
              \<and> (S ! i ! j = arr_min S \<longrightarrow> img ! (length S - 1 - i) ! j = 255)
              \<and> (S ! i ! j = arr_max S \<longrightarrow> img ! (length S - 1 - i) ! j = 0)))"
proof -
  let ?img = "map (map (\<lambda>p. 255 - p)) (rev (map (map (\<lambda>x. of_nat (quantise S x) :: 8 word)) S))"
  have img: "spectrogram_img S = Inr ?img"
    by (rule spectrogram_img_non_constant [OF nc])
  have r: "arr_max S - arr_min S \<noteq> 0" using non_constant_range [OF nc] by simp
  have qmin: "quantise S (arr_min S) = 0" by (simp add: quantise_def)
  have qmax: "quantise S (arr_max S) = 255" using r by (simp add: quantise_def)
  have row: "?img ! (length S - 1 - i) = map (\<lambda>x. 255 - of_nat (quantise S x)) (S ! i)"
    if "i < length S" for i
    using that by (simp add: rev_nth rev_map [symmetric] comp_def)
  have "\<forall>i < length S.
            length (?img ! (length S - 1 - i)) = length (S ! i)
          \<and> (\<forall>j < length (S ! i).
                ?img ! (length S - 1 - i) ! j
                  = 255 - of_nat (nat \<lfloor>(S ! i ! j - arr_min S) / (arr_max S - arr_min S) * 255\<rfloor>)
              \<and> (S ! i ! j = arr_min S \<longrightarrow> ?img ! (length S - 1 - i) ! j = 255)
              \<and> (S ! i ! j = arr_max S \<longrightarrow> ?img ! (length S - 1 - i) ! j = 0))"
  proof (intro allI impI conjI)
    fix i assume i: "i < length S"
    show "length (?img ! (length S - 1 - i)) = length (S ! i)"
      by (simp only: row [OF i] length_map)
    fix j assume j: "j < length (S ! i)"
    show "?img ! (length S - 1 - i) ! j
        = 255 - of_nat (nat \<lfloor>(S ! i ! j - arr_min S) / (arr_max S - arr_min S) * 255\<rfloor>)"
    proof -
      have "?img ! (length S - 1 - i) ! j = 255 - of_nat (quantise S (S ! i ! j))"
        unfolding row [OF i] using j by simp
      then show ?thesis by (simp only: quantise_def)
    qed
    show "?img ! (length S - 1 - i) ! j = 255" if "S ! i ! j = arr_min S"
      unfolding row [OF i] using j that by (simp add: qmin)
    show "?img ! (length S - 1 - i) ! j = 0" if "S ! i ! j = arr_max S"
      unfolding row [OF i] using j that by (simp add: qmax)
  qed
  moreover have "length ?img = length S" by simp
  ultimately show ?thesis using img by blast
qed

theorem spectrogram_img_pixels_witness:
  "\<exists>img. spectrogram_img [[-10, 0], [5, 10]] = Inr img
     \<and> length img = 2 \<and> img ! 1 ! 0 = 255 \<and> img ! 1 ! 1 = 128 \<and> img ! 0 ! 0 = 64 \<and> img ! 0 ! 1 = 0"
proof -
  let ?S = "[[-10, 0], [5, 10::real]]"
  have nc: "non_constant ?S"
    unfolding non_constant_def by (intro bexI [of _ "-10"] bexI [of _ "10"]) simp_all
  have mn: "arr_min ?S = -10" by (simp add: arr_min_def)
  have mx: "arr_max ?S = 10" by (simp add: arr_max_def)
  from spectrogram_img_pixels [OF nc] obtain img where img: "spectrogram_img ?S = Inr img"
    and len: "length img = length ?S"
    and px: "\<forall>i < length ?S. \<forall>j < length (?S ! i).
                img ! (length ?S - 1 - i) ! j
                  = 255 - of_nat (nat \<lfloor>(?S ! i ! j - (-10)) / (10 - (-10)) * 255\<rfloor>)"
    unfolding mn mx by blast
  have "img ! (length ?S - 1 - 0) ! 0
      = 255 - of_nat (nat \<lfloor>(?S ! 0 ! 0 - (-10)) / (10 - (-10)) * 255\<rfloor>)"
    by (rule px [rule_format]) simp_all
  then have p10: "img ! 1 ! 0 = 255" by simp
  have "img ! (length ?S - 1 - 0) ! 1
      = 255 - of_nat (nat \<lfloor>(?S ! 0 ! 1 - (-10)) / (10 - (-10)) * 255\<rfloor>)"
    by (rule px [rule_format]) simp_all
  then have p11: "img ! 1 ! 1 = 128" by simp
  have "img ! (length ?S - 1 - 1) ! 0
      = 255 - of_nat (nat \<lfloor>(?S ! 1 ! 0 - (-10)) / (10 - (-10)) * 255\<rfloor>)"
    by (rule px [rule_format]) simp_all
  then have p00: "img ! 0 ! 0 = 64" by simp
  have "img ! (length ?S - 1 - 1) ! 1
      = 255 - of_nat (nat \<lfloor>(?S ! 1 ! 1 - (-10)) / (10 - (-10)) * 255\<rfloor>)"
    by (rule px [rule_format]) simp_all
  then have p01: "img ! 0 ! 1 = 0" by simp
  from img len p10 p11 p00 p01 show ?thesis by simp
qed

subsection \<open>Shapes of the tensor operations\<close>

lemma hd_len_eq:
  assumes "xs \<noteq> []" and "\<forall>x \<in> set xs. length x = n"
  shows "hd_len xs = n"
  using assms by (cases xs) (simp_all add: hd_len_def)

lemma is_tensor4_dims:
  assumes t: "is_tensor4 d0 d1 d2 d3 t" and pos: "0 < d0" "0 < d1" "0 < d2"
  shows "length t = d0" and "hd_len t = d1" and "hd_len (concat t) = d2" and "channels t = d3"
proof -
  show l0: "length t = d0" using t by (simp add: is_tensor4_def)
  have t_ne: "t \<noteq> []" using l0 pos by auto
  show "hd_len t = d1"
    using t by (intro hd_len_eq [OF t_ne]) (simp add: is_tensor4_def)
  obtain a t' where ta: "t = a # t'" using t_ne by (cases t) auto
  have la: "length a = d1" using t ta by (simp add: is_tensor4_def)
  then obtain b a' where ab: "a = b # a'" using pos by (cases a) auto
  have lb: "length b = d2" using t ta ab by (simp add: is_tensor4_def)
  then obtain c b' where bc: "b = c # b'" using pos by (cases b) auto
  have c_ne: "concat t \<noteq> []" using ta ab by simp
  show "hd_len (concat t) = d2"
    using t by (intro hd_len_eq [OF c_ne]) (auto simp: is_tensor4_def)
  have cc_ne: "concat (concat t) \<noteq> []" using ta ab bc by simp
  show "channels t = d3"
    unfolding channels_def using t by (intro hd_len_eq [OF cc_ne]) (auto simp: is_tensor4_def)
qed

lemma is_tensor4_image:
  assumes t: "is_tensor4 d0 d1 d2 d3 t" and a: "a \<in> set t" and pos: "0 < d1" "0 < d2"
  shows "length a = d1" and "hd_len a = d2" and "hd_len (concat a) = d3"
proof -
  show la: "length a = d1" using t a by (simp add: is_tensor4_def)
  have a_ne: "a \<noteq> []" using la pos by auto
  show "hd_len a = d2"
    using t a by (intro hd_len_eq [OF a_ne]) (simp add: is_tensor4_def)
  obtain b a' where ab: "a = b # a'" using a_ne by (cases a) auto
  have lb: "length b = d2" using t a ab by (simp add: is_tensor4_def)
  then obtain c b' where bc: "b = c # b'" using pos by (cases b) auto
  have c_ne: "concat a \<noteq> []" using ab bc by simp
  show "hd_len (concat a) = d3"
    using t a by (intro hd_len_eq [OF c_ne]) (auto simp: is_tensor4_def)
qed

lemma is_tensor4_nth:
  assumes t: "is_tensor4 d0 d1 d2 d3 t" and a: "a \<in> set t" and i: "i < d1" and j: "j < d2"
  shows "length (a ! i ! j) = d3"
proof -
  have la: "length a = d1" using t a by (simp add: is_tensor4_def)
  have ai: "a ! i \<in> set a" using la i by simp
  have lb: "length (a ! i) = d2" using t a ai by (simp add: is_tensor4_def)
  have aij: "a ! i ! j \<in> set (a ! i)" using lb j by simp
  show ?thesis using t a ai aij by (simp add: is_tensor4_def)
qed

lemma conv2d_same_shape:
  assumes x: "is_tensor4 n h w c x" and k: "is_tensor4 kh kw c co k"
    and pos: "0 < n" "0 < h" "0 < w" "0 < kh" "0 < kw" "0 < c"
  shows "\<exists>y. conv2d_same x k = Inr y \<and> is_tensor4 n h w co y"
proof -
  have cx: "channels x = c" using is_tensor4_dims(4) [OF x] pos by simp
  have ck: "hd_len (concat k) = c" "channels k = co"
    using is_tensor4_dims [OF k] pos by simp_all
  have img: "length a = h \<and> hd_len a = w" if "a \<in> set x" for a
    using is_tensor4_image [OF x that] pos by simp
  show ?thesis
    using x pos by (simp add: conv2d_same_def Let_def cx ck is_tensor4_def img)
qed

lemma bias_add_shape:
  assumes x: "is_tensor4 n h w c x" and b: "length bias = c"
    and pos: "0 < n" "0 < h" "0 < w"
  shows "\<exists>y. bias_add x bias = Inr y \<and> is_tensor4 n h w c y"
proof -
  have cx: "channels x = c" using is_tensor4_dims(4) [OF x] pos by simp
  show ?thesis
    using x b by (simp add: bias_add_def cx is_tensor4_def)
qed

lemma relu_shape: "is_tensor4 n h w c x \<Longrightarrow> is_tensor4 n h w c (relu x)"
  by (simp add: relu_def is_tensor4_def)

lemma max_pool_2x2_shape:
  assumes x: "is_tensor4 n h w c x" and pos: "0 < h" "0 < w"
  shows "is_tensor4 n (h div 2) (w div 2) c (max_pool_2x2 x)"
proof -
  have img: "length a = h \<and> hd_len a = w \<and> hd_len (concat a) = c" if "a \<in> set x" for a
    using is_tensor4_image [OF x that] pos by simp
  show ?thesis
    using x by (simp add: max_pool_2x2_def is_tensor4_def img)
qed

lemma up_sampling_2x2_shape:
  assumes x: "is_tensor4 n h w c x" and pos: "0 < h" "0 < w"
  shows "is_tensor4 n (2 * h) (2 * w) c (up_sampling_2x2 x)"
proof -
  have img: "length a = h \<and> hd_len a = w" if "a \<in> set x" for a
    using is_tensor4_image [OF x that] pos by simp
  have px: "length (a ! (i div 2) ! (j div 2)) = c"
    if "a \<in> set x" "i < 2 * h" "j < 2 * w" for a i j
    using that by (intro is_tensor4_nth [OF x]) auto
  show ?thesis
    using x by (auto simp: up_sampling_2x2_def is_tensor4_def img px)
qed

lemma inverse_kernel_shape:
  assumes k: "is_tensor4 kh kw ci co k" and pos: "0 < ci"
  shows "is_tensor4 kh kw co ci (transpose_channels (flip_kernel k))"
proof -
  have m: "length m = ci \<and> hd_len m = co" if "a \<in> set k" "m \<in> set a" for a m
  proof -
    have lm: "length m = ci" using k that by (simp add: is_tensor4_def)
    then have "m \<noteq> []" using pos by auto
    moreover have "\<forall>r \<in> set m. length r = co" using k that by (simp add: is_tensor4_def)
    ultimately show ?thesis using lm by (simp add: hd_len_eq)
  qed
  show ?thesis
    using k by (auto simp: transpose_channels_def flip_kernel_def is_tensor4_def m)
qed

lemma forward_stage_shape:
  assumes x: "is_tensor4 n h w c x" and k: "is_tensor4 kh kw c co k" and b: "length bias = co"
    and pos: "0 < n" "0 < h" "0 < w" "0 < kh" "0 < kw" "0 < c"
  shows "\<exists>c1 c2. conv2d_same x k = Inr c1 \<and> bias_add c1 bias = Inr c2
           \<and> is_tensor4 n (h div 2) (w div 2) co (max_pool_2x2 (relu c2))"
proof -
  from conv2d_same_shape [OF x k pos] obtain c1
    where c1: "conv2d_same x k = Inr c1" "is_tensor4 n h w co c1" by blast
  from bias_add_shape [OF c1(2) b pos(1-3)] obtain c2
    where c2: "bias_add c1 bias = Inr c2" "is_tensor4 n h w co c2" by blast
  have "is_tensor4 n (h div 2) (w div 2) co (max_pool_2x2 (relu c2))"
    by (rule max_pool_2x2_shape [OF relu_shape [OF c2(2)] pos(2,3)])
  with c1 c2 show ?thesis by blast
qed

lemma inverse_step_shape:
  assumes x: "is_tensor4 n h w co x" and k: "is_tensor4 kh kw ci co k"
    and pos: "0 < n" "0 < h" "0 < w" "0 < kh" "0 < kw" "0 < ci" "0 < co"
  shows "\<exists>y. inverse_step x k = Inr y \<and> is_tensor4 n (2 * h) (2 * w) ci y"
  unfolding inverse_step_def
  using conv2d_same_shape [OF up_sampling_2x2_shape [OF x pos(2,3)] inverse_kernel_shape [OF k pos(6)]] pos
  by simp

lemma forward_pass_last_weight:
  assumes "forward_pass (x, lw) ws = Inr (y, fw)"
  shows "fw = (if ws = [] then lw else Some (fst (last ws)))"
  using assms
proof (induction ws arbitrary: x lw)
  case Nil
  then show ?case by simp
next
  case (Cons p ws)
  obtain k b where p: "p = (k, b)" by (cases p)
  from Cons.prems obtain c1 c2 where "conv2d_same x k = Inr c1" "bias_add c1 b = Inr c2"
    and rest: "forward_pass (max_pool_2x2 (relu c2), Some k) ws = Inr (y, fw)"
    by (auto simp: p split: sum.splits)
  from Cons.IH [OF rest] show ?case by (simp add: p)
qed

subsection \<open>Squeezing a one-channel tile\<close>

lemma np_squeeze_Arr:
  assumes "length as \<noteq> 1"
  shows "np_squeeze (Arr as) = Arr (map np_squeeze as)"
proof (cases as)
  case Nil
  then show ?thesis by simp
next
  case (Cons a as')
  with assms obtain b bs where "as' = b # bs" by (cases as') auto
  with Cons show ?thesis by simp
qed

lemma np_squeeze_pixel:
  assumes "length c = 1"
  shows "np_squeeze (Arr (map Scalar c)) = Scalar (c ! 0)"
proof -
  from assms obtain v where "c = [v]" by (cases c) auto
  then show ?thesis by simp
qed

lemma np_squeeze_tile:
  assumes t: "is_tensor4 1 h w 1 t" and big: "2 \<le> h" "2 \<le> w"
  shows "np_squeeze (to_ndarray t) = nd_matrix (squeezed_tile t)"
proof -
  from t obtain a where ta: "t = [a]"
    by (cases t) (auto simp: is_tensor4_def)
  have la: "length a = h" using t ta by (simp add: is_tensor4_def)
  have lb: "length b = w" if "b \<in> set a" for b using t ta that by (simp add: is_tensor4_def)
  have lc: "length c = 1" if "b \<in> set a" "c \<in> set b" for b c
    using t ta that by (simp add: is_tensor4_def)
  have row: "np_squeeze (Arr (map (\<lambda>c. Arr (map Scalar c)) b)) = Arr (map Scalar (map (\<lambda>px. px ! 0) b))"
    if b: "b \<in> set a" for b
  proof -
    have "length (map (\<lambda>c. Arr (map Scalar c)) b) \<noteq> 1" using lb [OF b] big by simp
    then have "np_squeeze (Arr (map (\<lambda>c. Arr (map Scalar c)) b))
        = Arr (map np_squeeze (map (\<lambda>c. Arr (map Scalar c)) b))"
      by (rule np_squeeze_Arr)
    also have "map np_squeeze (map (\<lambda>c. Arr (map Scalar c)) b) = map Scalar (map (\<lambda>px. px ! 0) b)"
      unfolding map_map comp_def
      by (intro map_cong refl) (simp add: np_squeeze_pixel [OF lc [OF b]])
    finally show ?thesis .
  qed
  have "np_squeeze (to_ndarray t) = np_squeeze (Arr (map (\<lambda>b. Arr (map (\<lambda>c. Arr (map Scalar c)) b)) a))"
    by (simp add: ta to_ndarray_def)
  also have "\<dots> = Arr (map np_squeeze (map (\<lambda>b. Arr (map (\<lambda>c. Arr (map Scalar c)) b)) a))"
    by (rule np_squeeze_Arr) (use la big in simp)
  also have "map np_squeeze (map (\<lambda>b. Arr (map (\<lambda>c. Arr (map Scalar c)) b)) a)
      = map (\<lambda>row. Arr (map Scalar row)) (map (map (\<lambda>px. px ! 0)) a)"
    unfolding map_map comp_def by (intro map_cong refl) (simp add: row)
  finally show ?thesis by (simp add: nd_matrix_def squeezed_tile_def ta)
qed

lemma squeezed_tile_shape:
  assumes t: "is_tensor4 1 h w c t"
  shows "length (squeezed_tile t) = h" and "\<forall>row \<in> set (squeezed_tile t). length row = w"
proof -
  from t obtain a where ta: "t = [a]"
    by (cases t) (auto simp: is_tensor4_def)
  show "length (squeezed_tile t) = h" using t ta by (simp add: squeezed_tile_def is_tensor4_def)
  show "\<forall>row \<in> set (squeezed_tile t). length row = w"
    using t ta by (simp add: squeezed_tile_def is_tensor4_def)
qed

lemma nd_matrix_length: "nd_matrix M = nd_matrix M' \<Longrightarrow> length M = length M'"
  unfolding nd_matrix_def by (auto dest: map_eq_imp_length_eq)

subsection \<open>Deconvolution\<close>

lemma deconvolve_and_interpret_steps:
  assumes ne: "ws \<noteq> []"
  shows "deconvolve_and_interpret S ws =
     (case forward_pass (S, None) ws of
        Inl e \<Rightarrow> Inl e
      | Inr (conv, _) \<Rightarrow>
          (case inverse_pass conv [fst (last ws), fst (hd ws)] of
             Inl e \<Rightarrow> Inl e
           | Inr deconv \<Rightarrow> Inr (np_squeeze (to_ndarray deconv))))"
proof (cases "forward_pass (S, None) ws")
  case (Inl e)
  then show ?thesis by (simp add: deconvolve_and_interpret_def)
next
  case (Inr r)
  obtain conv fw where r: "r = (conv, fw)" by (cases r)
  have fw: "fw = Some (fst (last ws))"
    using forward_pass_last_weight [OF Inr [unfolded r]] ne by simp
  obtain w0 b0 rest where ws: "ws = (w0, b0) # rest"
    using ne by (cases ws) auto
  show ?thesis
    unfolding deconvolve_and_interpret_def Inr r fw
    by (simp add: Let_def inverse_step_def ws split: sum.splits)
qed

lemma deconvolve_and_interpret_two:
  "deconvolve_and_interpret S [p1, p2] = spec_deconvolve_and_interpret S [p1, p2]"
proof -
  have "deconvolve_and_interpret S [p1, p2] =
     (case forward_pass (S, None) [p1, p2] of
        Inl e \<Rightarrow> Inl e
      | Inr (conv, _) \<Rightarrow>
          (case inverse_pass conv [fst (last [p1, p2]), fst (hd [p1, p2])] of
             Inl e \<Rightarrow> Inl e
           | Inr deconv \<Rightarrow> Inr (np_squeeze (to_ndarray deconv))))"
    by (rule deconvolve_and_interpret_steps) simp
  moreover have "[fst (last [p1, p2]), fst (hd [p1, p2])] = rev (map fst [p1, p2])"
    by simp
  ultimately show ?thesis
    by (simp only: spec_deconvolve_and_interpret_def)
qed

lemma deconvolve_and_interpret_Nil:
  "deconvolve_and_interpret S [] = Inl UnboundLocalError"
  by (simp add: deconvolve_and_interpret_def)



text \<open>
  Claim C3 says that for a weight list of any length \<open>n\<close> the inverse pass has \<open>n\<close>
  steps, one per stage in reverse order: that \<^verbatim>\<open>deconvolve_and_interpret\<close> computes
  what \<open>spec_deconvolve_and_interpret\<close> does. With a single stage it does not: the
  code makes two inverse steps and returns 256 rows, the specification one step and
  128 rows.
\<close>

theorem deconvolve_single_stage_counterexample:
  "deconvolve_and_interpret [replicate 128 (replicate 128 [0])] [([[[[1]]]], [0])]
     \<noteq> spec_deconvolve_and_interpret [replicate 128 (replicate 128 [0])] [([[[[1]]]], [0])]"
proof -
  let ?S = "[replicate 128 (replicate 128 [0::real])]"
  let ?K = "[[[[1::real]]]]"
  have S: "is_tensor4 1 128 128 1 ?S" by (simp add: is_tensor4_def)
  have K: "is_tensor4 1 1 1 1 ?K" by (simp add: is_tensor4_def)
  from forward_stage_shape [OF S K, of "[0]"] obtain a1 a2
    where s1: "conv2d_same ?S ?K = Inr a1" "bias_add a1 [0] = Inr a2"
      and p1: "is_tensor4 1 64 64 1 (max_pool_2x2 (relu a2))"
    by auto
  let ?conv = "max_pool_2x2 (relu a2)"
  have fwd: "forward_pass (?S, None) [(?K, [0])] = Inr (?conv, Some ?K)"
    by (simp add: s1)
  from inverse_step_shape [OF p1 K] obtain d1
    where d1: "inverse_step ?conv ?K = Inr d1" "is_tensor4 1 128 128 1 d1"
    by auto
  from inverse_step_shape [OF d1(2) K] obtain d2
    where d2: "inverse_step d1 ?K = Inr d2" "is_tensor4 1 256 256 1 d2"
    by auto
  have "deconvolve_and_interpret ?S [(?K, [0])] =
     (case forward_pass (?S, None) [(?K, [0])] of
        Inl e \<Rightarrow> Inl e
      | Inr (conv, _) \<Rightarrow>
          (case inverse_pass conv [fst (last [(?K, [0::real])]), fst (hd [(?K, [0::real])])] of
             Inl e \<Rightarrow> Inl e
           | Inr deconv \<Rightarrow> Inr (np_squeeze (to_ndarray deconv))))"
    by (rule deconvolve_and_interpret_steps) simp
  also have "\<dots> = Inr (nd_matrix (squeezed_tile d2))"
    unfolding fwd by (simp add: d1 d2 np_squeeze_tile [OF d2(2)])
  finally have code: "deconvolve_and_interpret ?S [(?K, [0])] = Inr (nd_matrix (squeezed_tile d2))" .
  have spec: "spec_deconvolve_and_interpret ?S [(?K, [0])] = Inr (nd_matrix (squeezed_tile d1))"
    unfolding spec_deconvolve_and_interpret_def fwd
    by (simp add: d1 np_squeeze_tile [OF d1(2)])
  have "length (squeezed_tile d2) = 256" "length (squeezed_tile d1) = 128"
    using squeezed_tile_shape(1) [OF d2(2)] squeezed_tile_shape(1) [OF d1(2)] by simp_all
  then have "nd_matrix (squeezed_tile d2) \<noteq> nd_matrix (squeezed_tile d1)"
    using nd_matrix_length [of "squeezed_tile d2" "squeezed_tile d1"] by auto
  then show ?thesis by (simp add: code spec)
qed

text \<open>
  Claim C3, amended. For every non-empty weight list, \<^verbatim>\<open>deconvolve_and_interpret\<close>
  runs one forward stage per pair and then exactly two inverse steps (2x upsample,
  kernel flip and channel transpose, stride-1 same-padding convolution): the first with
  the kernel of the last stage, the second with the kernel of the first stage. For a
  list of two pairs this is one inverse step per stage in reverse order, as the
  specification asks. For the empty list the call raises UnboundLocalError.
\<close>

theorem deconvolve_inverse_steps:
  "(ws \<noteq> [] \<longrightarrow>
      deconvolve_and_interpret S ws =
        (case forward_pass (S, None) ws of
           Inl e \<Rightarrow> Inl e
         | Inr (conv, _) \<Rightarrow>
             (case inverse_pass conv [fst (last ws), fst (hd ws)] of
                Inl e \<Rightarrow> Inl e
              | Inr deconv \<Rightarrow> Inr (np_squeeze (to_ndarray deconv)))))
   \<and> (length ws = 2 \<longrightarrow> deconvolve_and_interpret S ws = spec_deconvolve_and_interpret S ws)
   \<and> deconvolve_and_interpret S [] = Inl UnboundLocalError"
proof (intro conjI impI)
  assume "ws \<noteq> []"
  then show "deconvolve_and_interpret S ws =
        (case forward_pass (S, None) ws of
           Inl e \<Rightarrow> Inl e
         | Inr (conv, _) \<Rightarrow>
             (case inverse_pass conv [fst (last ws), fst (hd ws)] of
                Inl e \<Rightarrow> Inl e
              | Inr deconv \<Rightarrow> Inr (np_squeeze (to_ndarray deconv))))"
    by (rule deconvolve_and_interpret_steps)
next
  assume "length ws = 2"
  then obtain p1 p2 where "ws = [p1, p2]"
    by (cases ws; cases "tl ws") auto
  then show "deconvolve_and_interpret S ws = spec_deconvolve_and_interpret S ws"
    by (simp only: deconvolve_and_interpret_two)
next
  show "deconvolve_and_interpret S [] = Inl UnboundLocalError"
    by (rule deconvolve_and_interpret_Nil)
qed

theorem deconvolve_inverse_steps_witness:
  "deconvolve_and_interpret [replicate 128 (replicate 128 [1])] [([[[[1]]]], [0]), ([[[[2]]]], [0])]
     = spec_deconvolve_and_interpret [replicate 128 (replicate 128 [1])]
         [([[[[1]]]], [0]), ([[[[2]]]], [0])]"
proof -
  have two: "length [([[[[1::real]]]], [0::real]), ([[[[2]]]], [0])] = 2" by simp
  from deconvolve_inverse_steps
    [of "[([[[[1]]]], [0]), ([[[[2]]]], [0])]" "[replicate 128 (replicate 128 [1])]"]
  have "length [([[[[1::real]]]], [0::real]), ([[[[2]]]], [0])] = 2 \<longrightarrow>
      deconvolve_and_interpret [replicate 128 (replicate 128 [1])] [([[[[1]]]], [0]), ([[[[2]]]], [0])]
    = spec_deconvolve_and_interpret [replicate 128 (replicate 128 [1])]
        [([[[[1]]]], [0]), ([[[[2]]]], [0])]"
    by (elim conjE)
  then show ?thesis using two by (rule mp)
qed

subsection \<open>Masking by an activation\<close>

lemma length_concat_rect:
  assumes "\<forall>row \<in> set A. length row = c"
  shows "length (concat A) = length A * c"
  using assms by (induction A) simp_all

lemma reshape_rows:
  assumes "\<forall>row \<in> set A. length row = c"
  shows "map (\<lambda>i. take c (drop (i * c) (concat A))) [0..<length A] = A"
  using assms
proof (induction A)
  case Nil
  then show ?case by simp
next
  case (Cons row A)
  have row: "length row = c" using Cons.prems by simp
  have upt: "[0..<length (row # A)] = 0 # map Suc [0..<length A]"
    by (simp add: upt_conv_Cons map_Suc_upt del: upt_Suc)
  have tl: "map (\<lambda>i. take c (drop (Suc i * c) (concat (row # A)))) [0..<length A]
          = map (\<lambda>i. take c (drop (i * c) (concat A))) [0..<length A]"
    using row by (intro map_cong refl) (simp add: add.commute)
  have "map (\<lambda>i. take c (drop (i * c) (concat (row # A)))) [0..<length (row # A)]
      = take c (concat (row # A)) # map (\<lambda>i. take c (drop (Suc i * c) (concat (row # A)))) [0..<length A]"
    unfolding upt by (simp add: comp_def)
  also have "\<dots> = row # map (\<lambda>i. take c (drop (i * c) (concat A))) [0..<length A]"
    unfolding tl using row by simp
  also have "\<dots> = row # A"
    using Cons.IH Cons.prems by simp
  finally show ?case .
qed

lemma np_reshape_2d_tile:
  assumes "length A = r" and "\<forall>row \<in> set A. length row = c"
  shows "np_reshape_2d r c [A] = Inr A"
  using assms reshape_rows [OF assms(2)] length_concat_rect [OF assms(2)]
  by (simp add: np_reshape_2d_def)

lemma py_index_valid:
  assumes "- int n \<le> idx" and "idx < int n"
  shows "\<exists>q < n. py_index n idx = Inr q"
  using assms by (auto simp: py_index_def)

lemma py_index_nat: "i < n \<Longrightarrow> py_index n (int i) = Inr i"
  by (simp add: py_index_def)

lemma conv_activation_shape:
  assumes S: "is_tensor4 n h w c S" and K: "is_tensor4 kh kw c co K" and b: "length b = co"
    and pos: "0 < n" "0 < h" "0 < w" "0 < kh" "0 < kw" "0 < c"
  shows "\<exists>conv. conv_activation S (K, b) = Inr conv \<and> is_tensor4 n h w co conv"
proof -
  from conv2d_same_shape [OF S K pos] obtain c1
    where c1: "conv2d_same S K = Inr c1" "is_tensor4 n h w co c1" by blast
  from bias_add_shape [OF c1(2) b pos(1-3)] obtain c2
    where c2: "bias_add c1 b = Inr c2" "is_tensor4 n h w co c2" by blast
  show ?thesis
    using c1 c2 relu_shape [OF c2(2)] by (simp add: conv_activation_def)
qed

lemma channel_map_shape:
  assumes "is_tensor4 1 h w co conv"
  shows "length (channel_map conv q) = h" and "\<forall>row \<in> set (channel_map conv q). length row = w"
proof -
  from assms obtain a where "conv = [a]"
    by (cases conv) (auto simp: is_tensor4_def)
  with assms show "length (channel_map conv q) = h"
    and "\<forall>row \<in> set (channel_map conv q). length row = w"
    by (simp_all add: channel_map_def is_tensor4_def)
qed

lemma filter_activations_tile:
  assumes conv: "is_tensor4 1 128 128 co conv" and q: "py_index co idx = Inr q"
  shows "filter_activations conv idx = Inr (channel_map conv q)"
proof -
  from conv obtain a where a: "conv = [a]"
    by (cases conv) (auto simp: is_tensor4_def)
  have ch: "channels conv = co" using is_tensor4_dims(4) [OF conv] by simp
  have sl: "channel_slice conv idx = Inr [channel_map conv q]"
    using ch q by (simp add: channel_slice_def channel_map_def a)
  show ?thesis
    unfolding filter_activations_def sl
    using channel_map_shape [OF conv, of q] by (simp add: np_reshape_2d_tile)
qed

lemma those_map_Some_id: "those (map Some xs) = Some xs"
  by (induction xs) simp_all

lemma the_matrix_nd_matrix: "the_matrix (nd_matrix M) = Some M"
proof -
  have "the_row \<circ> (\<lambda>row. Arr (map Scalar row)) = (Some :: 'a list \<Rightarrow> 'a list option)"
    by (rule ext) (simp add: comp_def those_map_Some_id)
  then show ?thesis
    by (simp add: nd_matrix_def those_map_Some_id)
qed

lemma map_length_rect:
  assumes "length A = r" and "\<forall>row \<in> set A. length row = c"
  shows "map length A = replicate r c"
  using assms by (auto simp: list_eq_iff_nth_eq)

lemma minmax_scaling_lengths:
  assumes "minmax_scaling A f = Inr m"
  shows "map length m = map length A"
  using assms by (auto simp: minmax_scaling_def Let_def comp_def split: if_splits)

lemma minmax_scaling_nonempty:
  assumes "concat A \<noteq> []"
  shows "\<exists>m. minmax_scaling A f = Inr m"
  using assms by (simp add: minmax_scaling_def Let_def)

lemma np_multiply_tile:
  assumes "map length T = map length m"
  shows "np_multiply (nd_matrix T) m
       = Inr (map (\<lambda>(srow, mrow). map (\<lambda>(s, m). np_times m s) (zip srow mrow)) (zip T m))"
  using assms by (simp add: np_multiply_def the_matrix_nd_matrix)

lemma rect_concat_nonempty:
  assumes "length A = r" and "\<forall>row \<in> set A. length row = c" and "0 < r" and "0 < c"
  shows "concat A \<noteq> []"
proof
  assume e: "concat A = []"
  have "length (concat A) = length A * c" by (rule length_concat_rect [OF assms(2)])
  then have "length A * c = 0" unfolding e by simp
  then show False using assms(1,3,4) by simp
qed

text \<open>What the masking of one filter computes on a well-shaped input.\<close>

lemma mask_spectrogram_tile:
  assumes S: "is_tensor4 1 128 128 1 S" and conv: "is_tensor4 1 128 128 co conv"
    and q: "py_index co idx = Inr q"
  shows "\<exists>m. minmax_scaling (channel_map conv q) 1 = Inr m
      \<and> mask_spectrogram (np_squeeze (to_ndarray S)) conv idx
          = Inr (map (\<lambda>(srow, mrow). map (\<lambda>(s, m). np_times m s) (zip srow mrow))
                   (zip (squeezed_tile S) m))"
proof -
  let ?A = "channel_map conv q"
  have shape: "length ?A = 128" "\<forall>row \<in> set ?A. length row = 128"
    using channel_map_shape [OF conv, of q] by simp_all
  have "concat ?A \<noteq> []"
    by (rule rect_concat_nonempty [OF shape]) simp_all
  then obtain m where m: "minmax_scaling ?A 1 = Inr m"
    using minmax_scaling_nonempty by blast
  have "map length m = replicate 128 128"
    using minmax_scaling_lengths [OF m] map_length_rect [OF shape] by simp
  moreover have "map length (squeezed_tile S) = replicate 128 128"
    using squeezed_tile_shape [OF S] by (intro map_length_rect) simp_all
  ultimately have len: "map length (squeezed_tile S) = map length m" by simp
  have sq: "np_squeeze (to_ndarray S) = nd_matrix (squeezed_tile S)"
    by (rule np_squeeze_tile [OF S]) simp_all
  show ?thesis
    using m by (simp add: mask_spectrogram_def filter_activations_tile [OF conv q] sq
        np_multiply_tile [OF len])
qed

lemma all_filters_loop_unchanged:
  assumes "\<forall>i \<in> set is. \<exists>m. mask_spectrogram S conv (int i) = Inr m"
  shows "all_filters_loop S conv is masked = Inr masked"
  using assms by (induction "is") auto

lemma interpret_activation_all_filters:
  assumes S: "is_tensor4 1 128 128 1 S" and K: "is_tensor4 kh kw 1 co K" and b: "length b = co"
    and pos: "0 < kh" "0 < kw"
  shows "interpret_activation S (K, b) None = Inr (MaskedList [])"
proof -
  from conv_activation_shape [OF S K b] pos obtain conv
    where conv: "conv_activation S (K, b) = Inr conv" "is_tensor4 1 128 128 co conv"
    by auto
  have ch: "channels conv = co" using is_tensor4_dims(4) [OF conv(2)] by simp
  have "\<exists>m. mask_spectrogram (np_squeeze (to_ndarray S)) conv (int i) = Inr m"
    if "i \<in> set [0..<co]" for i
    using mask_spectrogram_tile [OF S conv(2) py_index_nat [of i co]] that by auto
  then have "all_filters_loop (np_squeeze (to_ndarray S)) conv [0..<co] [] = Inr []"
    by (intro all_filters_loop_unchanged) blast
  then show ?thesis
    by (simp add: interpret_activation_def conv ch)
qed

lemma masked_product_nth:
  assumes "i < length T" "length m = length T" "j < length (T ! i)" "length (m ! i) = length (T ! i)"
  shows "masked_product T m ! i ! j = np_times (m ! i ! j) (T ! i ! j)"
  using assms by (simp add: masked_product_def)

lemma masked_product_shape:
  assumes "map length T = map length m"
  shows "length (masked_product T m) = length T"
    and "i < length T \<Longrightarrow> length (masked_product T m ! i) = length (T ! i)"
proof -
  have l: "length T = length m" using assms by (rule map_eq_imp_length_eq)
  then show "length (masked_product T m) = length T" by (simp add: masked_product_def)
  assume i: "i < length T"
  have "map length T ! i = map length m ! i" using assms by simp
  then have "length (T ! i) = length (m ! i)" using i l by simp
  then show "length (masked_product T m ! i) = length (T ! i)"
    using i l by (simp add: masked_product_def)
qed

lemma interpret_activation_one_filter:
  assumes S: "is_tensor4 1 128 128 1 S" and K: "is_tensor4 kh kw 1 co K" and b: "length b = co"
    and pos: "0 < kh" "0 < kw"
    and idx: "- int co \<le> idx" "idx < int co"
  shows "\<exists>A m. selected_activation_map S (K, b) idx = Inr A
      \<and> length A = 128 \<and> (\<forall>row \<in> set A. length row = 128)
      \<and> minmax_scaling A 1 = Inr m
      \<and> interpret_activation S (K, b) (Some idx) = Inr (Masked (masked_product (squeezed_tile S) m))"
proof -
  from conv_activation_shape [OF S K b] pos obtain conv
    where conv: "conv_activation S (K, b) = Inr conv" "is_tensor4 1 128 128 co conv"
    by auto
  from py_index_valid [OF idx] obtain q where q: "py_index co idx = Inr q" by blast
  let ?A = "channel_map conv q"
  have act: "selected_activation_map S (K, b) idx = Inr ?A"
    by (simp add: selected_activation_map_def conv filter_activations_tile [OF conv(2) q])
  from mask_spectrogram_tile [OF S conv(2) q] obtain m
    where m: "minmax_scaling ?A 1 = Inr m"
      and ms: "mask_spectrogram (np_squeeze (to_ndarray S)) conv idx
          = Inr (masked_product (squeezed_tile S) m)"
    unfolding masked_product_def by blast
  have "interpret_activation S (K, b) (Some idx) = Inr (Masked (masked_product (squeezed_tile S) m))"
    by (simp add: interpret_activation_def conv ms)
  with act m channel_map_shape [OF conv(2), of q] show ?thesis by blast
qed

lemma unit_scaled_bounds:
  assumes nc: "non_constant A" and x: "x \<in> set (concat A)"
  shows "0 \<le> (x - arr_min A) / (arr_max A - arr_min A)"
    and "(x - arr_min A) / (arr_max A - arr_min A) \<le> 1"
proof -
  have r: "0 < arr_max A - arr_min A" using non_constant_range [OF nc] by simp
  have lo: "0 \<le> x - arr_min A" using arr_min_le [OF x] by simp
  have hi: "x - arr_min A \<le> arr_max A - arr_min A" using arr_max_ge [OF x] by simp
  show "0 \<le> (x - arr_min A) / (arr_max A - arr_min A)" using r lo by simp
  show "(x - arr_min A) / (arr_max A - arr_min A) \<le> 1" using r hi by simp
qed

lemma squeezed_tile_nth:
  assumes S: "is_tensor4 1 h w c S" and "i < h" "j < w"
  shows "squeezed_tile S ! i ! j = S ! 0 ! i ! j ! 0"
proof -
  from S obtain a where a: "S = [a]"
    by (cases S) (auto simp: is_tensor4_def)
  have "length a = h" using S a by (simp add: is_tensor4_def)
  moreover have "length (a ! i) = w" using S a assms(2) calculation by (simp add: is_tensor4_def)
  ultimately show ?thesis using assms(2,3) by (simp add: squeezed_tile_def a)
qed


lemma is_tensor4_lengths:
  assumes t: "is_tensor4 n h w c t" and bi: "bi < n"
  shows "length (t ! bi) = h"
    and "i < h \<Longrightarrow> length (t ! bi ! i) = w"
    and "i < h \<Longrightarrow> j < w \<Longrightarrow> length (t ! bi ! i ! j) = c"
proof -
  have a: "t ! bi \<in> set t" using t bi by (simp add: is_tensor4_def)
  show la: "length (t ! bi) = h" using t a by (simp add: is_tensor4_def)
  assume i: "i < h"
  have r: "t ! bi ! i \<in> set (t ! bi)" using la i by simp
  show lr: "length (t ! bi ! i) = w" using t a r by (simp add: is_tensor4_def)
  assume j: "j < w"
  show "length (t ! bi ! i ! j) = c" by (rule is_tensor4_nth [OF t a i j])
qed

lemma conv2d_same_nth:
  assumes x: "is_tensor4 n h w c x" and k: "is_tensor4 kh kw c co k"
    and pos: "0 < n" "0 < h" "0 < w" "0 < kh" "0 < kw" "0 < c"
    and y: "conv2d_same x k = Inr y"
    and ix: "bi < n" "i < h" "j < w" "oc < co"
  shows "y ! bi ! i ! j ! oc =
      (\<Sum>di\<leftarrow>[0..<kh]. \<Sum>dj\<leftarrow>[0..<kw]. \<Sum>q\<leftarrow>[0..<c].
         pad_at (x ! bi) (int i + int di - int ((kh - 1) div 2)) (int j + int dj - int ((kw - 1) div 2)) q
           * k ! di ! dj ! q ! oc)"
proof -
  have cx: "channels x = c" using is_tensor4_dims(4) [OF x] pos by simp
  have dk: "length k = kh" "hd_len k = kw" "hd_len (concat k) = c" "channels k = co"
    using is_tensor4_dims [OF k] pos by simp_all
  have lx: "length x = n" using x by (simp add: is_tensor4_def)
  have img: "x ! bi \<in> set x" using lx ix by simp
  have di: "length (x ! bi) = h" "hd_len (x ! bi) = w"
    using is_tensor4_image [OF x img] pos by simp_all
  show ?thesis
    using y ix lx pos by (auto simp: conv2d_same_def Let_def cx dk di)
qed

lemma bias_add_nth:
  assumes x: "is_tensor4 n h w c x" and b: "length bias = c"
    and pos: "0 < n" "0 < h" "0 < w"
    and y: "bias_add x bias = Inr y"
    and ix: "bi < n" "i < h" "j < w" "oc < c"
  shows "y ! bi ! i ! j ! oc = x ! bi ! i ! j ! oc + bias ! oc"
proof -
  have cx: "channels x = c" using is_tensor4_dims(4) [OF x] pos by simp
  have lx: "length x = n" using x by (simp add: is_tensor4_def)
  note ls = is_tensor4_lengths [OF x ix(1)]
  show ?thesis
    using y ix lx b ls(1) ls(2) [OF ix(2)] ls(3) [OF ix(2,3)]
    by (auto simp: bias_add_def cx)
qed

lemma relu_nth:
  assumes x: "is_tensor4 n h w c x" and ix: "bi < n" "i < h" "j < w" "oc < c"
  shows "relu x ! bi ! i ! j ! oc = max 0 (x ! bi ! i ! j ! oc)"
proof -
  have lx: "length x = n" using x by (simp add: is_tensor4_def)
  note ls = is_tensor4_lengths [OF x ix(1)]
  show ?thesis
    using ix lx ls(1) ls(2) [OF ix(2)] ls(3) [OF ix(2,3)] by (simp add: relu_def)
qed

lemma conv_activation_nth:
  assumes S: "is_tensor4 n h w c S" and K: "is_tensor4 kh kw c co K" and b: "length b = co"
    and pos: "0 < n" "0 < h" "0 < w" "0 < kh" "0 < kw" "0 < c"
    and conv: "conv_activation S (K, b) = Inr conv"
    and ix: "bi < n" "i < h" "j < w" "oc < co"
  shows "conv ! bi ! i ! j ! oc =
      max 0 ((\<Sum>di\<leftarrow>[0..<kh]. \<Sum>dj\<leftarrow>[0..<kw]. \<Sum>q\<leftarrow>[0..<c].
         pad_at (S ! bi) (int i + int di - int ((kh - 1) div 2)) (int j + int dj - int ((kw - 1) div 2)) q
           * K ! di ! dj ! q ! oc) + b ! oc)"
proof -
  from conv2d_same_shape [OF S K pos] obtain c1
    where c1: "conv2d_same S K = Inr c1" "is_tensor4 n h w co c1" by blast
  from bias_add_shape [OF c1(2) b pos(1-3)] obtain c2
    where c2: "bias_add c1 b = Inr c2" "is_tensor4 n h w co c2" by blast
  have "conv = relu c2" using conv c1 c2 by (simp add: conv_activation_def)
  then show ?thesis
    by (simp only: relu_nth [OF c2(2) ix] bias_add_nth [OF c1(2) b pos(1-3) c2(1) ix]
        conv2d_same_nth [OF S K pos c1(1) ix])
qed

lemma channel_map_nth:
  assumes conv: "is_tensor4 1 h w co conv" and ix: "i < h" "j < w"
  shows "channel_map conv q ! i ! j = conv ! 0 ! i ! j ! q"
proof -
  note ls = is_tensor4_lengths [OF conv, of 0]
  show ?thesis using ix ls(1) ls(2) [OF _ ix(1)] by (simp add: channel_map_def)
qed

lemma selected_activation_map_nth:
  assumes S: "is_tensor4 1 128 128 1 S" and K: "is_tensor4 kh kw 1 co K" and b: "length b = co"
    and pos: "0 < kh" "0 < kw"
    and q: "q < co"
    and act: "selected_activation_map S (K, b) (int q) = Inr A"
    and ix: "i < 128" "j < 128"
  shows "A ! i ! j =
      max 0 ((\<Sum>di\<leftarrow>[0..<kh]. \<Sum>dj\<leftarrow>[0..<kw]. \<Sum>r\<leftarrow>[0..<1].
         pad_at (S ! 0) (int i + int di - int ((kh - 1) div 2)) (int j + int dj - int ((kw - 1) div 2)) r
           * K ! di ! dj ! r ! q) + b ! q)"
proof -
  from conv_activation_shape [OF S K b] pos obtain conv
    where conv: "conv_activation S (K, b) = Inr conv" "is_tensor4 1 128 128 co conv"
    by auto
  have "A = channel_map conv q"
    using act by (simp add: selected_activation_map_def conv
        filter_activations_tile [OF conv(2) py_index_nat [OF q]])
  then show ?thesis
    using conv_activation_nth [OF S K b _ _ _ pos _ conv(1) _ ix q] channel_map_nth [OF conv(2) ix, of q]
    by simp
qed

lemma sum_upt_3: "(\<Sum>i\<leftarrow>[0..<3]. f i) = f 0 + f 1 + (f 2 :: real)"
proof -
  have "[0..<3] = [0, 1, 2]" by (simp add: upt_rec)
  then show ?thesis by simp
qed

lemma concat_nthE:
  assumes "y \<in> set (concat A)"
  obtains i j where "i < length A" "j < length (A ! i)" "y = A ! i ! j"
proof -
  from assms obtain row where "row \<in> set A" "y \<in> set row" by auto
  then obtain i j where "i < length A" "row = A ! i" "j < length row" "y = row ! j"
    by (auto simp: in_set_conv_nth)
  then show ?thesis using that by blast
qed

lemma arr_min_eqI:
  assumes "i0 < length A" "j0 < length (A ! i0)" "A ! i0 ! j0 = lo"
    and "\<And>i j. i < length A \<Longrightarrow> j < length (A ! i) \<Longrightarrow> lo \<le> A ! i ! j"
  shows "arr_min A = lo"
  unfolding arr_min_def
proof (rule Min_eqI)
  show "finite (set (concat A))" by simp
  show "lo \<le> y" if "y \<in> set (concat A)" for y
    using that assms(4) by (elim concat_nthE) simp
  show "lo \<in> set (concat A)"
    using nth_in_concat [OF assms(1,2)] assms(3) by simp
qed

lemma arr_max_eqI:
  assumes "i0 < length A" "j0 < length (A ! i0)" "A ! i0 ! j0 = hi"
    and "\<And>i j. i < length A \<Longrightarrow> j < length (A ! i) \<Longrightarrow> A ! i ! j \<le> hi"
  shows "arr_max A = hi"
  unfolding arr_max_def
proof (rule Max_eqI)
  show "finite (set (concat A))" by simp
  show "y \<le> hi" if "y \<in> set (concat A)" for y
    using that assms(4) by (elim concat_nthE) simp
  show "hi \<in> set (concat A)"
    using nth_in_concat [OF assms(1,2)] assms(3) by simp
qed

lemma minmax_scaling_constant:
  assumes ne: "concat A \<noteq> []" and const: "\<not> non_constant A"
  shows "minmax_scaling A f = Inr (map (map (\<lambda>x. NaN)) A)"
proof -
  have fin: "finite (set (concat A))" and ne': "set (concat A) \<noteq> {}"
    using ne by simp_all
  have mn: "arr_min A \<in> set (concat A)" unfolding arr_min_def by (rule Min_in [OF fin ne'])
  have mx: "arr_max A \<in> set (concat A)" unfolding arr_max_def by (rule Max_in [OF fin ne'])
  have all_eq: "x = arr_min A" if "x \<in> set (concat A)" for x
    using const that mn unfolding non_constant_def by blast
  have range: "arr_max A - arr_min A = 0" using all_eq [OF mx] by simp
  have "map (map (\<lambda>x. np_times (np_divide (x - arr_min A) (arr_max A - arr_min A)) f)) A
      = map (map (\<lambda>x. NaN)) A"
  proof (intro map_cong refl)
    fix row x assume "row \<in> set A" "x \<in> set row"
    then have "x = arr_min A" by (intro all_eq in_concatI)
    then show "np_times (np_divide (x - arr_min A) (arr_max A - arr_min A)) f = NaN"
      by (simp add: range np_divide_def)
  qed
  then show ?thesis
    using ne by (simp add: minmax_scaling_def Let_def comp_def)
qed

lemma constant_entries:
  assumes "\<And>i j. i < length A \<Longrightarrow> j < length (A ! i) \<Longrightarrow> A ! i ! j = v"
  shows "\<not> non_constant A"
proof
  assume "non_constant A"
  then obtain x y where "x \<in> set (concat A)" "y \<in> set (concat A)" "x \<noteq> y"
    unfolding non_constant_def by blast
  then show False using assms by (elim concat_nthE) simp
qed

lemma replicate_matrix_eqI:
  assumes "length M = r" and "\<And>i. i < r \<Longrightarrow> length (M ! i) = c"
    and "\<And>i j. i < r \<Longrightarrow> j < c \<Longrightarrow> M ! i ! j = v"
  shows "M = replicate r (replicate c v)"
  using assms by (simp add: list_eq_iff_nth_eq)

text \<open>A constant activation map: every entry of the result is NaN.\<close>

lemma interpret_activation_constant:
  assumes S: "is_tensor4 1 128 128 1 S" and K: "is_tensor4 kh kw 1 co K" and b: "length b = co"
    and pos: "0 < kh" "0 < kw"
    and idx: "- int co \<le> idx" "idx < int co"
    and act: "selected_activation_map S (K, b) idx = Inr A"
    and const: "\<not> non_constant A"
  shows "minmax_scaling A 1 = Inr (replicate 128 (replicate 128 NaN))"
    and "interpret_activation S (K, b) (Some idx) = Inr (Masked (replicate 128 (replicate 128 NaN)))"
proof -
  from interpret_activation_one_filter [OF S K b pos idx] act obtain m
    where shape: "length A = 128" "\<forall>row \<in> set A. length row = 128"
      and m: "minmax_scaling A 1 = Inr m"
      and res: "interpret_activation S (K, b) (Some idx) = Inr (Masked (masked_product (squeezed_tile S) m))"
    by auto
  let ?T = "squeezed_tile S"
  have ne: "concat A \<noteq> []" by (rule rect_concat_nonempty [OF shape]) simp_all
  have m_eq: "m = map (map (\<lambda>x. NaN)) A"
    using m minmax_scaling_constant [OF ne const, of 1] by simp
  have Ai: "length (A ! i) = 128" if "i < 128" for i using shape that by simp
  have m_rep: "m = replicate 128 (replicate 128 NaN)"
    by (rule replicate_matrix_eqI) (simp_all add: m_eq shape(1) Ai)
  show "minmax_scaling A 1 = Inr (replicate 128 (replicate 128 NaN))"
    using m m_rep by simp
  have T: "length ?T = 128" "\<forall>row \<in> set ?T. length row = 128"
    using squeezed_tile_shape [OF S] by simp_all
  have Ti: "length (?T ! i) = 128" if "i < 128" for i using T that by simp
  have len: "map length ?T = map length m"
    using map_length_rect [OF T] by (simp add: m_rep)
  have "masked_product ?T m = replicate 128 (replicate 128 NaN)"
  proof (rule replicate_matrix_eqI)
    show "length (masked_product ?T m) = 128"
      using masked_product_shape(1) [OF len] T(1) by simp
    show "length (masked_product ?T m ! i) = 128" if "i < 128" for i
      using masked_product_shape(2) [OF len, of i] T(1) Ti [OF that] that by simp
    show "masked_product ?T m ! i ! j = NaN" if i: "i < 128" and j: "j < 128" for i j
    proof -
      have "masked_product ?T m ! i ! j = np_times (m ! i ! j) (?T ! i ! j)"
        using i j T(1) Ti [OF i] by (intro masked_product_nth) (simp_all add: m_rep)
      then show ?thesis using i j by (simp add: m_rep)
    qed
  qed
  with res show "interpret_activation S (K, b) (Some idx) = Inr (Masked (replicate 128 (replicate 128 NaN)))"
    by simp
qed

lemma pad_at_uniform:
  "pad_at (replicate 128 (replicate 128 [v])) a b 0 = v * inside a * inside b"
proof (cases "0 \<le> a \<and> a < 128")
  case a: True
  then have "nat a < 128" by linarith
  then have row: "replicate 128 (replicate 128 [v]) ! nat a = replicate 128 [v]" by simp
  show ?thesis
  proof (cases "0 \<le> b \<and> b < 128")
    case True
    then have "nat b < 128" by linarith
    then show ?thesis using a True by (simp add: pad_at_def inside_def row)
  next
    case False
    then show ?thesis using a by (auto simp: pad_at_def inside_def row)
  qed
next
  case False
  then show ?thesis by (auto simp: pad_at_def inside_def)
qed

lemma window_sum:
  assumes "i < 128"
  shows "inside (int i + 0 - 1) + inside (int i + 1 - 1) + inside (int i + 2 - 1) = window_count i"
  using assms by (auto simp: inside_def window_count_def)

lemma window_count_range: "2 \<le> window_count i" "window_count i \<le> 3"
  by (simp_all add: window_count_def)

lemma uniform_shapes:
  "is_tensor4 1 128 128 1 uniform_tile" "is_tensor4 3 3 1 32 ones_kernel" "length zero_bias = 32"
  by (simp_all add: is_tensor4_def uniform_tile_def ones_kernel_def zero_bias_def)

lemma uniform_activation_entry:
  assumes i: "i < 128" and j: "j < 128"
  shows "max 0 ((\<Sum>di\<leftarrow>[0..<3]. \<Sum>dj\<leftarrow>[0..<3]. \<Sum>r\<leftarrow>[0..<1].
         pad_at (uniform_tile ! 0) (int i + int di - int ((3 - 1) div 2)) (int j + int dj - int ((3 - 1) div 2)) r
           * ones_kernel ! di ! dj ! r ! 0) + zero_bias ! 0)
       = 5 * window_count i * window_count j"
proof -
  define a where "a = inside (int i + 0 - 1) + inside (int i + 1 - 1) + inside (int i + 2 - 1)"
  define b where "b = inside (int j + 0 - 1) + inside (int j + 1 - 1) + inside (int j + 2 - 1)"
  have "(\<Sum>di\<leftarrow>[0..<3]. \<Sum>dj\<leftarrow>[0..<3]. \<Sum>r\<leftarrow>[0..<1].
         pad_at (uniform_tile ! 0) (int i + int di - int ((3 - 1) div 2)) (int j + int dj - int ((3 - 1) div 2)) r
           * ones_kernel ! di ! dj ! r ! 0) = 5 * a * b"
    unfolding a_def b_def
    by (simp add: sum_upt_3 uniform_tile_def ones_kernel_def pad_at_uniform algebra_simps)
  moreover have "a = window_count i" "b = window_count j"
    unfolding a_def b_def using i j by (simp_all only: window_sum)
  moreover have "0 \<le> 5 * window_count i * window_count j"
    using window_count_range(1) [of i] window_count_range(1) [of j] by simp
  ultimately show ?thesis by (simp add: zero_bias_def)
qed

text \<open>The scenario of the all-5.0 spectrogram and the all-ones 3x3 kernel.\<close>

lemma uniform_input_result:
  "\<exists>A m M. selected_activation_map uniform_tile (ones_kernel, zero_bias) 0 = Inr A
     \<and> length A = 128 \<and> (\<forall>row \<in> set A. length row = 128)
     \<and> (\<forall>i<128. \<forall>j<128. A ! i ! j = 5 * window_count i * window_count j)
     \<and> non_constant A
     \<and> minmax_scaling A 1 = Inr m
     \<and> (\<forall>i<128. \<forall>j<128. m ! i ! j = Fin ((window_count i * window_count j - 4) / 5))
     \<and> interpret_activation uniform_tile (ones_kernel, zero_bias) (Some 0) = Inr (Masked M)
     \<and> length M = 128
     \<and> (\<forall>i<128. length (M ! i) = 128
           \<and> (\<forall>j<128. M ! i ! j = Fin (window_count i * window_count j - 4)))"
proof -
  note sh = uniform_shapes
  from interpret_activation_one_filter [OF sh, of 0] obtain A m
    where act: "selected_activation_map uniform_tile (ones_kernel, zero_bias) 0 = Inr A"
      and shape: "length A = 128" "\<forall>row \<in> set A. length row = 128"
      and m: "minmax_scaling A 1 = Inr m"
      and res: "interpret_activation uniform_tile (ones_kernel, zero_bias) (Some 0)
                  = Inr (Masked (masked_product (squeezed_tile uniform_tile) m))"
    by auto
  let ?T = "squeezed_tile uniform_tile"
  have Ai: "length (A ! i) = 128" if "i < 128" for i using shape that by simp
  have A: "A ! i ! j = 5 * window_count i * window_count j" if ij: "i < 128" "j < 128" for i j
    using selected_activation_map_nth [OF sh _ _ _ _ ij, of 0 A] act
      uniform_activation_entry [OF ij] by simp
  have a00: "A ! 0 ! 0 = 20" and a11: "A ! 1 ! 1 = 45"
    using A [of 0 0] A [of 1 1] by (simp_all add: window_count_def)
  have lo: "20 \<le> A ! i ! j" if "i < 128" "j < 128" for i j
  proof -
    have "2 * 2 \<le> window_count i * window_count j"
      using window_count_range [of i] window_count_range [of j] by (intro mult_mono) linarith+
    then show ?thesis using A [OF that] by simp
  qed
  have hi: "A ! i ! j \<le> 45" if "i < 128" "j < 128" for i j
  proof -
    have "window_count i * window_count j \<le> 3 * 3"
      using window_count_range [of i] window_count_range [of j] by (intro mult_mono) linarith+
    then show ?thesis using A [OF that] by simp
  qed
  have mn: "arr_min A = 20"
    using shape(1) Ai a00 lo by (intro arr_min_eqI [of 0 A 0]) simp_all
  have mx: "arr_max A = 45"
    using shape(1) Ai a11 hi by (intro arr_max_eqI [of 1 A 1]) simp_all
  have nc: "non_constant A"
    unfolding non_constant_def
  proof (intro bexI)
    show "A ! 0 ! 0 \<noteq> A ! 1 ! 1" using a00 a11 by simp
    show "A ! 0 ! 0 \<in> set (concat A)" using shape(1) Ai [of 0] by (intro nth_in_concat) simp_all
    show "A ! 1 ! 1 \<in> set (concat A)" using shape(1) Ai [of 1] by (intro nth_in_concat) simp_all
  qed
  have m_eq: "m = map (map (\<lambda>x. Fin ((x - 20) / (45 - 20) * 1))) A"
    using m minmax_scaling_non_constant [OF nc, of 1] by (simp add: mn mx)
  have T: "length ?T = 128" "\<forall>row \<in> set ?T. length row = 128"
    using squeezed_tile_shape [OF sh(1)] by simp_all
  have Ti: "length (?T ! i) = 128" if "i < 128" for i using T that by simp
  have Tij: "?T ! i ! j = 5" if "i < 128" "j < 128" for i j
    using squeezed_tile_nth [OF sh(1) that] that by (simp add: uniform_tile_def)
  have len: "map length ?T = map length m"
    using map_length_rect [OF T] map_length_rect [OF shape] by (simp add: m_eq comp_def)
  have entry: "masked_product ?T m ! i ! j = Fin (window_count i * window_count j - 4)"
    if i: "i < 128" and j: "j < 128" for i j
  proof -
    have mij: "m ! i ! j = Fin ((A ! i ! j - 20) / (45 - 20) * 1)"
      using i j shape(1) Ai [OF i] by (simp add: m_eq)
    have "masked_product ?T m ! i ! j = np_times (m ! i ! j) (?T ! i ! j)"
      using i j T(1) Ti [OF i] Ai [OF i] shape(1) by (intro masked_product_nth) (simp_all add: m_eq)
    then show ?thesis by (simp add: mij Tij [OF i j] A [OF i j])
  qed
  have "length (masked_product ?T m) = 128"
    using masked_product_shape(1) [OF len] T(1) by simp
  moreover have "length (masked_product ?T m ! i) = 128" if "i < 128" for i
    using masked_product_shape(2) [OF len, of i] T(1) Ti [OF that] that by simp
  moreover have "m ! i ! j = Fin ((window_count i * window_count j - 4) / 5)"
    if i: "i < 128" and j: "j < 128" for i j
    using i j shape(1) Ai [OF i] by (simp add: m_eq A [OF i j])
  ultimately show ?thesis using act shape A nc m res entry by blast
qed

text \<open>The zero kernel with bias c gives the constant activation map max 0 c, for any tile.\<close>

lemma zero_kernel_activation_map:
  assumes S: "is_tensor4 1 128 128 1 S"
  shows "selected_activation_map S ([[[[0]]]], [c]) 0 = Inr (replicate 128 (replicate 128 (max 0 c)))"
proof -
  let ?K = "[[[[0::real]]]]"
  have K: "is_tensor4 1 1 1 1 ?K" by (simp add: is_tensor4_def)
  have b: "length [c] = 1" by simp
  from interpret_activation_one_filter [OF S K b, of 0] obtain A
    where act: "selected_activation_map S (?K, [c]) 0 = Inr A"
      and shape: "length A = 128" "\<forall>row \<in> set A. length row = 128"
    by auto
  have Ai: "length (A ! i) = 128" if "i < 128" for i using shape that by simp
  have "A ! i ! j = max 0 c" if "i < 128" "j < 128" for i j
    using selected_activation_map_nth [OF S K b _ _ _ _ that, of 0 A] act by simp
  then have "A = replicate 128 (replicate 128 (max 0 c))"
    using shape(1) Ai by (intro replicate_matrix_eqI) simp_all
  with act show ?thesis by simp
qed

lemma replicate_constant: "\<not> non_constant (replicate r (replicate c v))"
  by (rule constant_entries [of _ v]) simp

text \<open>
  Claim C1 says that without \<open>filter_index\<close> the function returns one masked
  spectrogram per output channel of the kernel. The code computes each of them and
  returns the list \<open>masked\<close>, to which it has added none: for the kernel with 32 output
  channels the result is the empty list.
\<close>

theorem interpret_activation_all_filters_empty:
  "channels ones_kernel = 32
   \<and> interpret_activation uniform_tile (ones_kernel, zero_bias) None = Inr (MaskedList [])"
proof -
  have "channels ones_kernel = 32"
    using is_tensor4_dims(4) [OF uniform_shapes(2)] by simp
  moreover have "interpret_activation uniform_tile (ones_kernel, zero_bias) None = Inr (MaskedList [])"
    by (rule interpret_activation_all_filters [OF uniform_shapes]) simp_all
  ultimately show ?thesis by simp
qed

text \<open>
  Claim C2 says that a constant activation map never leads to NaN in the result. With
  the zero kernel and a zero bias the activation map of filter 0 is 0 everywhere, and
  every entry of the masked spectrogram returned is NaN.
\<close>

theorem constant_activation_counterexample:
  "selected_activation_map [replicate 128 (replicate 128 [1])] ([[[[0]]]], [0]) 0
     = Inr (replicate 128 (replicate 128 0))
   \<and> \<not> non_constant (replicate 128 (replicate 128 0))
   \<and> interpret_activation [replicate 128 (replicate 128 [1])] ([[[[0]]]], [0]) (Some 0)
       = Inr (Masked (replicate 128 (replicate 128 NaN)))"
proof -
  let ?S = "[replicate 128 (replicate 128 [1::real])]"
  let ?K = "[[[[0::real]]]]"
  have S: "is_tensor4 1 128 128 1 ?S" by (simp add: is_tensor4_def)
  have K: "is_tensor4 1 1 1 1 ?K" by (simp add: is_tensor4_def)
  have b: "length [0::real] = 1" by simp
  have act: "selected_activation_map ?S (?K, [0]) 0 = Inr (replicate 128 (replicate 128 0))"
    using zero_kernel_activation_map [OF S, of 0] by simp
  have const: "\<not> non_constant (replicate 128 (replicate 128 (0::real)))"
    by (rule replicate_constant)
  have "interpret_activation ?S (?K, [0]) (Some 0) = Inr (Masked (replicate 128 (replicate 128 NaN)))"
    by (rule interpret_activation_constant(2) [OF S K b _ _ _ _ act const]) simp_all
  with act const show ?thesis by simp
qed

text \<open>
  Claim C2, amended. There is no fallback: when the selected activation map is constant,
  \<^verbatim>\<open>minmax_scaling\<close> divides 0 by 0 at every entry, the mask is NaN everywhere and
  \<^verbatim>\<open>interpret_activation\<close> returns the 128x128 array of NaN. In general
  \<^verbatim>\<open>minmax_scaling\<close> of a constant, non-empty array is NaN at every entry, for
  every factor.
\<close>

theorem constant_activation_gives_nan:
  assumes S: "is_tensor4 1 128 128 1 S" and K: "is_tensor4 kh kw 1 co K" and b: "length b = co"
    and pos: "0 < kh" "0 < kw"
    and idx: "- int co \<le> idx" "idx < int co"
    and act: "selected_activation_map S (K, b) idx = Inr A"
    and const: "\<not> non_constant A"
  shows "minmax_scaling A 1 = Inr (replicate 128 (replicate 128 NaN))
    \<and> interpret_activation S (K, b) (Some idx) = Inr (Masked (replicate 128 (replicate 128 NaN)))
    \<and> (\<forall>X factor. concat X \<noteq> [] \<and> \<not> non_constant X
          \<longrightarrow> minmax_scaling X factor = Inr (map (map (\<lambda>x. NaN)) X))"
  using interpret_activation_constant [OF S K b pos idx act const] minmax_scaling_constant
  by blast

theorem constant_activation_gives_nan_witness:
  "interpret_activation uniform_tile ([[[[0]]]], [3]) (Some 0)
     = Inr (Masked (replicate 128 (replicate 128 NaN)))"
proof -
  let ?K = "[[[[0::real]]]]"
  have K: "is_tensor4 1 1 1 1 ?K" by (simp add: is_tensor4_def)
  have b: "length [3::real] = 1" by simp
  have act: "selected_activation_map uniform_tile (?K, [3]) 0 = Inr (replicate 128 (replicate 128 3))"
    using zero_kernel_activation_map [OF uniform_shapes(1), of 3] by simp
  have const: "\<not> non_constant (replicate 128 (replicate 128 (3::real)))"
    by (rule replicate_constant)
  have p: "(0::nat) < 1" and i1: "- int 1 \<le> 0" and i2: "(0::int) < int 1" by simp_all
  from constant_activation_gives_nan [OF uniform_shapes(1) K b p p i1 i2 act const]
  show ?thesis by blast
qed

text \<open>
  Claim C4 says that the all-5.0 spectrogram with the all-ones 3x3 kernel gives a uniform
  activation map and a masked spectrogram of zeros. The masked spectrogram returned is
  not the array of zeros.
\<close>

theorem uniform_input_counterexample:
  "interpret_activation uniform_tile (ones_kernel, zero_bias) (Some 0)
     \<noteq> Inr (Masked (replicate 128 (replicate 128 (Fin 0))))"
proof -
  from uniform_input_result obtain M
    where res: "interpret_activation uniform_tile (ones_kernel, zero_bias) (Some 0) = Inr (Masked M)"
      and px: "\<forall>i<128. \<forall>j<128. M ! i ! j = Fin (window_count i * window_count j - 4)"
    by blast
  have "M ! 1 ! 1 = Fin (window_count 1 * window_count 1 - 4)"
    by (rule px [rule_format]) simp_all
  then have "M ! 1 ! 1 = Fin 5" by (simp add: window_count_def)
  moreover have "replicate 128 (replicate 128 (Fin 0)) ! 1 ! 1 = Fin 0" by simp
  ultimately have "M \<noteq> replicate 128 (replicate 128 (Fin 0))" by auto
  then show ?thesis by (simp add: res)
qed

text \<open>
  Claim C4, amended. For the all-5.0 spectrogram, the all-ones 3x3 kernel with 32 output
  channels, zero bias and filter index 0, the activation map is not uniform: the
  same-padding convolution reads zeros outside the tile, so the activation is 45 inside,
  30 on the edges and 20 at the corners. No fallback is involved; the mask is 1 inside,
  0.4 on the edges and 0 at the corners, and the masked spectrogram is 5 inside, 2 on
  the edges and 0 at the corners.
\<close>

theorem uniform_input_masked:
  "\<exists>A m M. selected_activation_map uniform_tile (ones_kernel, zero_bias) 0 = Inr A
     \<and> (\<forall>i<128. \<forall>j<128. A ! i ! j = 5 * window_count i * window_count j)
     \<and> non_constant A
     \<and> minmax_scaling A 1 = Inr m
     \<and> (\<forall>i<128. \<forall>j<128. m ! i ! j = Fin ((window_count i * window_count j - 4) / 5))
     \<and> interpret_activation uniform_tile (ones_kernel, zero_bias) (Some 0) = Inr (Masked M)
     \<and> length M = 128
     \<and> (\<forall>i<128. length (M ! i) = 128
           \<and> (\<forall>j<128. M ! i ! j = Fin (window_count i * window_count j - 4)))"
  using uniform_input_result by blast

theorem uniform_input_masked_witness:
  "\<exists>M. interpret_activation uniform_tile (ones_kernel, zero_bias) (Some 0) = Inr (Masked M)
     \<and> M ! 0 ! 0 = Fin 0 \<and> M ! 0 ! 1 = Fin 2 \<and> M ! 1 ! 1 = Fin 5 \<and> M ! 127 ! 64 = Fin 2"
proof -
  from uniform_input_masked obtain M
    where res: "interpret_activation uniform_tile (ones_kernel, zero_bias) (Some 0) = Inr (Masked M)"
      and px: "\<forall>i<128. \<forall>j<128. M ! i ! j = Fin (window_count i * window_count j - 4)"
    by blast
  have "M ! 0 ! 0 = Fin (window_count 0 * window_count 0 - 4)"
    by (rule px [rule_format]) simp_all
  moreover have "M ! 0 ! 1 = Fin (window_count 0 * window_count 1 - 4)"
    by (rule px [rule_format]) simp_all
  moreover have "M ! 1 ! 1 = Fin (window_count 1 * window_count 1 - 4)"
    by (rule px [rule_format]) simp_all
  moreover have "M ! 127 ! 64 = Fin (window_count 127 * window_count 64 - 4)"
    by (rule px [rule_format]) simp_all
  ultimately show ?thesis using res by (simp add: window_count_def)
qed

text \<open>
  Claim C6. For a tile of shape \<open>(1, 128, 128, 1)\<close>, a kernel with one input channel and
  \<open>co\<close> output channels (32 in the claim), a bias of that length and a valid filter
  index whose activation map is non-constant, \<^verbatim>\<open>interpret_activation\<close> returns a
  128x128 array of finite values, each at most the input value at its position wherever
  that input value is non-negative.
\<close>

theorem interpret_activation_masked_le:
  assumes S: "is_tensor4 1 128 128 1 S" and K: "is_tensor4 kh kw 1 co K" and b: "length b = co"
    and pos: "0 < kh" "0 < kw"
    and idx: "- int co \<le> idx" "idx < int co"
    and act: "selected_activation_map S (K, b) idx = Inr A"
    and nc: "non_constant A"
  shows "\<exists>M. interpret_activation S (K, b) (Some idx) = Inr (Masked M)
      \<and> length M = 128
      \<and> (\<forall>i<128. length (M ! i) = 128
            \<and> (\<forall>j<128. \<exists>v. M ! i ! j = Fin v
                  \<and> (0 \<le> S ! 0 ! i ! j ! 0 \<longrightarrow> v \<le> S ! 0 ! i ! j ! 0)))"
proof -
  from interpret_activation_one_filter [OF S K b pos idx] act obtain m
    where shape: "length A = 128" "\<forall>row \<in> set A. length row = 128"
      and m: "minmax_scaling A 1 = Inr m"
      and res: "interpret_activation S (K, b) (Some idx) = Inr (Masked (masked_product (squeezed_tile S) m))"
    by auto
  let ?T = "squeezed_tile S"
  let ?u = "\<lambda>x. (x - arr_min A) / (arr_max A - arr_min A)"
  have m_eq: "m = map (map (\<lambda>x. Fin (?u x * 1))) A"
    using m minmax_scaling_non_constant [OF nc, of 1] by simp
  have T: "length ?T = 128" "\<forall>row \<in> set ?T. length row = 128"
    using squeezed_tile_shape [OF S] by simp_all
  have len: "map length ?T = map length m"
    using map_length_rect [OF T] map_length_rect [OF shape] by (simp add: m_eq comp_def)
  have Ai: "length (A ! i) = 128" if "i < 128" for i using shape that by simp
  have Ti: "length (?T ! i) = 128" if "i < 128" for i using T that by simp
  have entry: "\<exists>v. masked_product ?T m ! i ! j = Fin v
                  \<and> (0 \<le> S ! 0 ! i ! j ! 0 \<longrightarrow> v \<le> S ! 0 ! i ! j ! 0)"
    if i: "i < 128" and j: "j < 128" for i j
  proof -
    let ?s = "S ! 0 ! i ! j ! 0"
    have x: "A ! i ! j \<in> set (concat A)"
      using i j shape(1) Ai [OF i] by (intro nth_in_concat) simp_all
    have mij: "m ! i ! j = Fin (?u (A ! i ! j) * 1)"
      using i j shape(1) Ai [OF i] by (simp add: m_eq)
    have "masked_product ?T m ! i ! j = np_times (m ! i ! j) (?T ! i ! j)"
      using i j T(1) Ti [OF i] Ai [OF i] shape(1) by (intro masked_product_nth) (simp_all add: m_eq)
    also have "\<dots> = Fin (?u (A ! i ! j) * ?s)"
      using squeezed_tile_nth [OF S i j] by (simp add: mij)
    finally have eq: "masked_product ?T m ! i ! j = Fin (?u (A ! i ! j) * ?s)" .
    have "?u (A ! i ! j) * ?s \<le> 1 * ?s" if "0 \<le> ?s"
      using unit_scaled_bounds(2) [OF nc x] that by (rule mult_right_mono)
    then show ?thesis using eq by simp
  qed
  have "length (masked_product ?T m) = 128"
    using masked_product_shape(1) [OF len] T(1) by simp
  moreover have "length (masked_product ?T m ! i) = 128" if "i < 128" for i
    using masked_product_shape(2) [OF len, of i] T(1) Ti [OF that] that by simp
  ultimately show ?thesis using res entry by auto
qed

theorem interpret_activation_masked_le_witness:
  "\<exists>M. interpret_activation uniform_tile (ones_kernel, zero_bias) (Some 0) = Inr (Masked M)
     \<and> length M = 128 \<and> (\<exists>v. M ! 1 ! 1 = Fin v \<and> v \<le> 5)"
proof -
  from uniform_input_result obtain A
    where act: "selected_activation_map uniform_tile (ones_kernel, zero_bias) 0 = Inr A"
      and nc: "non_constant A"
    by blast
  have p: "(0::nat) < 3" and i1: "- int 32 \<le> 0" and i2: "(0::int) < int 32" by simp_all
  from interpret_activation_masked_le [OF uniform_shapes p p i1 i2 act nc] obtain M
    where res: "interpret_activation uniform_tile (ones_kernel, zero_bias) (Some 0) = Inr (Masked M)"
      and len: "length M = 128"
      and px: "\<forall>i<128. \<forall>j<128. \<exists>v. M ! i ! j = Fin v
                  \<and> (0 \<le> uniform_tile ! 0 ! i ! j ! 0 \<longrightarrow> v \<le> uniform_tile ! 0 ! i ! j ! 0)"
    by blast
  have "\<exists>v. M ! 1 ! 1 = Fin v \<and> (0 \<le> uniform_tile ! 0 ! 1 ! 1 ! 0 \<longrightarrow> v \<le> uniform_tile ! 0 ! 1 ! 1 ! 0)"
    by (rule px [rule_format]) simp_all
  then have "\<exists>v. M ! 1 ! 1 = Fin v \<and> v \<le> 5"
    by (simp add: uniform_tile_def)
  with res len show ?thesis by blast
qed

end
